theory Spec2Isabelle
  imports Main "HOL-Library.Word" "HOL-Library.Sublist"
begin

unbundle bit_operations_syntax

section \<open>The session layer of llama-jni.cpp\<close>

text \<open>
  The development embeds \<^verbatim>\<open>app/src/main/cpp/llama-jni.cpp\<close>: the process-wide
  session state, the prefix cache of \<^verbatim>\<open>nativeGenerateWithCache\<close>, the chunked prompt
  ingestion, the three sampling loops and the UTF-8 sanitisation pass. The llama.cpp
  library itself (tokenizer, decoder, sampler, vocabulary) is not part of the
  repository; it enters as a parameter of type \<open>backend\<close>.
\<close>

subsection \<open>Text codec: the UTF-8 sanitisation pass\<close>

type_synonym byte = "8 word"

text \<open>
  The loop at lines 368-391 (again at 702-731, and per token fragment at 898-921):
  \<^verbatim>\<open>for (size_t i = 0; i < response.length(); ) { unsigned char c = response[i]; ... }\<close>
  with the index \<open>i\<close> and the output string \<open>sanitized\<close> as loop state.
\<close>

function sanitize_from :: "byte list \<Rightarrow> nat \<Rightarrow> byte list \<Rightarrow> byte list" where
  "sanitize_from response i sanitized =
     (if i < length response then
        (if response ! i \<le> 0x7F then
           sanitize_from response (i + 1) (sanitized @ [response ! i])
         else if 0xC0 \<le> response ! i \<and> response ! i \<le> 0xDF \<and> i + 1 < length response
                 \<and> (response ! (i + 1)) AND 0xC0 = 0x80 then
           sanitize_from response (i + 2) (sanitized @ [response ! i, response ! (i + 1)])
         else if 0xE0 \<le> response ! i \<and> response ! i \<le> 0xEF \<and> i + 2 < length response
                 \<and> (response ! (i + 1)) AND 0xC0 = 0x80
                 \<and> (response ! (i + 2)) AND 0xC0 = 0x80 then
           sanitize_from response (i + 3)
             (sanitized @ [response ! i, response ! (i + 1), response ! (i + 2)])
         else if 0xF0 \<le> response ! i \<and> response ! i \<le> 0xF7 \<and> i + 3 < length response
                 \<and> (response ! (i + 1)) AND 0xC0 = 0x80
                 \<and> (response ! (i + 2)) AND 0xC0 = 0x80
                 \<and> (response ! (i + 3)) AND 0xC0 = 0x80 then
           sanitize_from response (i + 4)
             (sanitized @ [response ! i, response ! (i + 1), response ! (i + 2),
                           response ! (i + 3)])
         else sanitize_from response (i + 1) sanitized)
      else sanitized)"
  by pat_completeness auto
termination
  by (relation "measure (\<lambda>(response, i, sanitized). length response - i)") auto

declare sanitize_from.simps [simp del]

definition sanitize_utf8 :: "byte list \<Rightarrow> byte list" where
  "sanitize_utf8 response = sanitize_from response 0 []"

text \<open>
  \<^verbatim>\<open>env->NewStringUTF(s.c_str())\<close> reads the buffer as a C string: up to the first
  zero byte.
\<close>

definition c_str :: "byte list \<Rightarrow> byte list" where
  "c_str s = takeWhile (\<lambda>c. c \<noteq> 0) s"

text \<open>
  Well-formed UTF-8, for stating the round trip: the byte sequences of one code point
  as the Unicode standard lists them (Table 3-7; RFC 3629), and a text as a
  concatenation of code points. The sanitiser itself checks less (lead byte class and
  the \<open>10xxxxxx\<close> shape of the following bytes).
\<close>

definition utf8_tail :: "byte \<Rightarrow> bool" where
  "utf8_tail b = (0x80 \<le> b \<and> b \<le> 0xBF)"

fun utf8_codepoint :: "byte list \<Rightarrow> bool" where
  "utf8_codepoint [b0] = (b0 \<le> 0x7F)"
| "utf8_codepoint [b0, b1] = (0xC2 \<le> b0 \<and> b0 \<le> 0xDF \<and> utf8_tail b1)"
| "utf8_codepoint [b0, b1, b2] =
     ((b0 = 0xE0 \<and> 0xA0 \<le> b1 \<and> b1 \<le> 0xBF \<and> utf8_tail b2)
      \<or> (0xE1 \<le> b0 \<and> b0 \<le> 0xEC \<and> utf8_tail b1 \<and> utf8_tail b2)
      \<or> (b0 = 0xED \<and> 0x80 \<le> b1 \<and> b1 \<le> 0x9F \<and> utf8_tail b2)
      \<or> (0xEE \<le> b0 \<and> b0 \<le> 0xEF \<and> utf8_tail b1 \<and> utf8_tail b2))"
| "utf8_codepoint [b0, b1, b2, b3] =
     ((b0 = 0xF0 \<and> 0x90 \<le> b1 \<and> b1 \<le> 0xBF \<and> utf8_tail b2 \<and> utf8_tail b3)
      \<or> (0xF1 \<le> b0 \<and> b0 \<le> 0xF3 \<and> utf8_tail b1 \<and> utf8_tail b2 \<and> utf8_tail b3)
      \<or> (b0 = 0xF4 \<and> 0x80 \<le> b1 \<and> b1 \<le> 0x8F \<and> utf8_tail b2 \<and> utf8_tail b3))"
| "utf8_codepoint _ = False"

definition well_formed_utf8 :: "byte list list \<Rightarrow> bool" where
  "well_formed_utf8 cps = list_all utf8_codepoint cps"

text \<open>
  The same scan by recursion on the remaining input, used in the proofs only;
  \<open>sanitize_from_scan\<close> below shows that the loop computes it.
\<close>

fun utf8_scan :: "byte list \<Rightarrow> byte list" where
  "utf8_scan [] = []"
| "utf8_scan (c # rest) =
     (if c \<le> 0x7F then c # utf8_scan rest
      else if 0xC0 \<le> c \<and> c \<le> 0xDF \<and> 1 \<le> length rest \<and> (rest ! 0) AND 0xC0 = 0x80 then
        c # take 1 rest @ utf8_scan (drop 1 rest)
      else if 0xE0 \<le> c \<and> c \<le> 0xEF \<and> 2 \<le> length rest \<and> (rest ! 0) AND 0xC0 = 0x80
              \<and> (rest ! 1) AND 0xC0 = 0x80 then
        c # take 2 rest @ utf8_scan (drop 2 rest)
      else if 0xF0 \<le> c \<and> c \<le> 0xF7 \<and> 3 \<le> length rest \<and> (rest ! 0) AND 0xC0 = 0x80
              \<and> (rest ! 1) AND 0xC0 = 0x80 \<and> (rest ! 2) AND 0xC0 = 0x80 then
        c # take 3 rest @ utf8_scan (drop 3 rest)
      else utf8_scan rest)"

subsection \<open>The llama.cpp collaborator\<close>

type_synonym llama_token = int

text \<open>
  The decode state of sequence 0 (the KV memory of \<^verbatim>\<open>g_context\<close>): the token held at
  each position \<open>0, 1, ...\<close>. Position \<open>p\<close> is resident iff \<open>p < length kv\<close>.
\<close>

type_synonym decode_state = "llama_token list"

text \<open>
  Modelled from the spec: llama.cpp (\<^verbatim>\<open>llama.h\<close>) is not part of the repository;
  section 6 of the specification names the interface consumed (\<^verbatim>\<open>tokenize\<close>,
  \<^verbatim>\<open>detokenizeOne\<close>, \<^verbatim>\<open>ingestBatch\<close>, \<^verbatim>\<open>sampleNext\<close>, \<^verbatim>\<open>isEndOfSequence\<close>,
  \<^verbatim>\<open>truncateSequenceTo\<close>, \<^verbatim>\<open>clearSequence\<close>). What the library decides is a
  parameter: the vocabulary's tokenizer, whether a decode call on a given state and
  batch fails, the draw of the sampler chain (as a function of the number of earlier
  draws of the call and the decode state), the end-of-generation test and the byte
  fragment of a token. Temperature, top-k and top-p only configure the sampler chain
  and are part of \<open>sampler_sample\<close>.
\<close>

record backend =
  vocab_tokenize :: "string \<Rightarrow> bool \<Rightarrow> bool \<Rightarrow> llama_token list"
  decode_fails :: "decode_state \<Rightarrow> llama_token list \<Rightarrow> bool"
  sampler_sample :: "nat \<Rightarrow> decode_state \<Rightarrow> llama_token"
  vocab_is_eog :: "llama_token \<Rightarrow> bool"
  token_piece :: "llama_token \<Rightarrow> byte list"

text \<open>
  Modelled from the spec: \<^verbatim>\<open>llama_tokenize\<close> (the collaborator's \<^verbatim>\<open>tokenize\<close>), called
  as \<^verbatim>\<open>llama_tokenize(vocab, text, len, tokens, n_tokens_max, add_special, parse_special)\<close>:
  the number of tokens when they fit into \<open>n_tokens_max\<close>, otherwise minus the
  number that would have been written (the convention lines 247 and 257 rely on).
\<close>

definition llama_tokenize ::
  "backend \<Rightarrow> string \<Rightarrow> nat \<Rightarrow> bool \<Rightarrow> bool \<Rightarrow> int \<times> llama_token list" where
  "llama_tokenize b text n_tokens_max add_special parse_special =
     (let toks = vocab_tokenize b text add_special parse_special in
      if length toks \<le> n_tokens_max then (int (length toks), toks)
      else (- int (length toks), []))"

text \<open>
  Modelled from the spec: \<^verbatim>\<open>llama_decode\<close> (the collaborator's \<^verbatim>\<open>ingestBatch\<close>), called
  as \<^verbatim>\<open>llama_decode(g_context, llama_batch_get_one(tokens, n))\<close>: a non-zero result on
  failure, with the decode state as it was; on success the batch extends the decode
  state, stored at the positions following the last resident one.
\<close>

definition llama_decode ::
  "backend \<Rightarrow> decode_state \<Rightarrow> llama_token list \<Rightarrow> int \<times> decode_state" where
  "llama_decode b kv batch =
     (if decode_fails b kv batch then (1, kv) else (0, kv @ batch))"

text \<open>
  Modelled from the spec: \<^verbatim>\<open>llama_memory_seq_pos_max(mem, 0)\<close>, the largest resident
  position of sequence 0 (\<open>-1\<close> when none is).
\<close>

definition llama_memory_seq_pos_max :: "decode_state \<Rightarrow> int" where
  "llama_memory_seq_pos_max kv = int (length kv) - 1"

text \<open>
  Modelled from the spec: \<^verbatim>\<open>llama_memory_seq_rm(mem, 0, p0, -1)\<close> (the collaborator's
  \<^verbatim>\<open>truncateSequenceTo\<close>) removes every position from \<open>p0\<close> on, and
  \<^verbatim>\<open>llama_memory_clear(mem, false)\<close> (\<^verbatim>\<open>clearSequence\<close>) removes all.
\<close>

definition llama_memory_seq_rm :: "decode_state \<Rightarrow> int \<Rightarrow> decode_state" where
  "llama_memory_seq_rm kv p0 = take (nat p0) kv"

definition llama_memory_clear :: "decode_state \<Rightarrow> decode_state" where
  "llama_memory_clear kv = []"

text \<open>
  Modelled from the spec: \<^verbatim>\<open>llama_token_to_piece\<close> (the collaborator's
  \<^verbatim>\<open>detokenizeOne\<close>), called as
  \<^verbatim>\<open>llama_token_to_piece(vocab, token, buf, sizeof(buf), 0, true)\<close>: the number of
  bytes written into \<open>buf\<close>, negative when the piece does not fit.
\<close>

definition llama_token_to_piece :: "backend \<Rightarrow> llama_token \<Rightarrow> nat \<Rightarrow> int \<times> byte list" where
  "llama_token_to_piece b token buf_size =
     (let piece = token_piece b token in
      if length piece \<le> buf_size then (int (length piece), piece)
      else (- int (length piece), []))"

subsection \<open>Global state\<close>

text \<open>
  The globals of lines 21-30. A pointer is modelled by what the code tests of it:
  \<open>g_model\<close> and \<open>g_vocab\<close> by being non-null, \<open>g_context\<close> by the decode state
  it owns (\<open>None\<close> for \<^verbatim>\<open>nullptr\<close>).
\<close>

record session =
  g_model :: bool
  g_context :: "decode_state option"
  g_vocab :: bool
  g_initialized :: bool
  g_cached_system_tokens :: "llama_token list"
  g_cached_system_length :: int
  g_cached_system_prompt :: string

definition initial_session :: session where
  "initial_session =
     \<lparr>g_model = False, g_context = None, g_vocab = False, g_initialized = False,
      g_cached_system_tokens = [], g_cached_system_length = 0,
      g_cached_system_prompt = []\<rparr>"

subsection \<open>nativeLoadModel and nativeFreeModel\<close>

text \<open>How far loading gets (lines 80-175); every stage but the last returns \<^verbatim>\<open>JNI_FALSE\<close>.\<close>

datatype load_outcome =
  PathUnreadable | FileUnreadable | ModelLoadFails | VocabFails | ContextFails | LoadOk

definition nativeLoadModel :: "session \<Rightarrow> load_outcome \<Rightarrow> bool \<times> session" where
  "nativeLoadModel s outcome =
     (let s1 = (if g_initialized s
                then s\<lparr>g_context := None, g_model := False, g_vocab := False,
                       g_initialized := False\<rparr>
                else s)
      in case outcome of
           PathUnreadable \<Rightarrow> (False, s1)
         | FileUnreadable \<Rightarrow> (False, s1)
         | ModelLoadFails \<Rightarrow> (False, s1\<lparr>g_model := False\<rparr>)
         | VocabFails \<Rightarrow> (False, s1\<lparr>g_model := False, g_vocab := False\<rparr>)
         | ContextFails \<Rightarrow>
             (False, s1\<lparr>g_model := False, g_vocab := False, g_context := None\<rparr>)
         | LoadOk \<Rightarrow>
             (True, s1\<lparr>g_model := True, g_vocab := True, g_context := Some [],
                       g_initialized := True\<rparr>))"

definition nativeFreeModel :: "session \<Rightarrow> session" where
  "nativeFreeModel s =
     s\<lparr>g_context := None, g_model := False, g_vocab := False, g_initialized := False,
       g_cached_system_tokens := [], g_cached_system_length := 0,
       g_cached_system_prompt := []\<rparr>"

subsection \<open>Tokenizing and ingesting a prompt\<close>

text \<open>
  The two calls of lines 247-261 (and 513-528, 595-610, 814-833): the first with an
  empty buffer for the count, the second into a vector of that size.
\<close>

definition tokenize_prompt :: "backend \<Rightarrow> string \<Rightarrow> bool \<Rightarrow> bool \<Rightarrow> llama_token list option" where
  "tokenize_prompt b text add_special parse_special =
     (let n_tokens = - fst (llama_tokenize b text 0 add_special parse_special) in
      if n_tokens \<le> 0 then None
      else (case llama_tokenize b text (nat n_tokens) add_special parse_special of
              (r, toks) \<Rightarrow>
                if r < 0 then None
                else Some (take (nat n_tokens) (toks @ replicate (nat n_tokens) 0))))"

definition CHUNK_SIZE :: nat where
  "CHUNK_SIZE = 2048"

text \<open>
  The chunk loop of lines 273-284 (and 540-570, 619-631, 844-858). The result says
  whether every chunk was decoded, with the decode state reached.
\<close>

function decode_chunks ::
  "backend \<Rightarrow> llama_token list \<Rightarrow> nat \<Rightarrow> decode_state \<Rightarrow> bool \<times> decode_state" where
  "decode_chunks b tokens tokens_processed kv =
     (if tokens_processed < length tokens then
        (case llama_decode b kv
                (take (min CHUNK_SIZE (length tokens - tokens_processed))
                   (drop tokens_processed tokens)) of
           (rc, kv') \<Rightarrow>
             if rc \<noteq> 0 then (False, kv')
             else decode_chunks b tokens
                    (tokens_processed + min CHUNK_SIZE (length tokens - tokens_processed)) kv')
      else (True, kv))"
  by pat_completeness auto
termination
  by (relation "measure (\<lambda>(b, tokens, tokens_processed, kv). length tokens - tokens_processed)")
     (auto simp add: CHUNK_SIZE_def)

declare decode_chunks.simps [simp del]

subsection \<open>The sampling loops\<close>

text \<open>
  The loop of lines 310-349 in \<^verbatim>\<open>nativeGenerate\<close>, repeated at 654-681 in
  \<^verbatim>\<open>nativeGenerateWithCache\<close>: the loop state is \<open>i\<close>, the decode state, \<open>response\<close>
  and \<open>n_generated\<close>.
\<close>

function sampling_loop ::
  "backend \<Rightarrow> int \<Rightarrow> int \<Rightarrow> decode_state \<Rightarrow> byte list \<Rightarrow> int
     \<Rightarrow> decode_state \<times> byte list \<times> int" where
  "sampling_loop b maxTokens i kv response n_generated =
     (if i < maxTokens then
        (if vocab_is_eog b (sampler_sample b (nat i) kv) then (kv, response, n_generated)
         else
           (case llama_token_to_piece b (sampler_sample b (nat i) kv) 256 of
              (n_chars, buf) \<Rightarrow>
                (case llama_decode b kv [sampler_sample b (nat i) kv] of
                   (rc, kv') \<Rightarrow>
                     if rc \<noteq> 0 then
                       (kv', if n_chars > 0 then response @ buf else response, n_generated + 1)
                     else
                       sampling_loop b maxTokens (i + 1) kv'
                         (if n_chars > 0 then response @ buf else response)
                         (n_generated + 1))))
      else (kv, response, n_generated))"
  by pat_completeness auto
termination
  by (relation "measure (\<lambda>(b, maxTokens, i, kv, response, n). nat (maxTokens - i))") auto

declare sampling_loop.simps [simp del]

text \<open>The calls made on the streaming callback, in order.\<close>

datatype event = OnToken "byte list" | OnComplete | OnError string | NullMethodCall

text \<open>
  The loop of lines 881-943 in \<^verbatim>\<open>nativeGenerateStreaming\<close>; each fragment is
  sanitised on its own and handed to \<^verbatim>\<open>onToken\<close> at once.
\<close>

function streaming_loop ::
  "backend \<Rightarrow> int \<Rightarrow> int \<Rightarrow> decode_state \<Rightarrow> event list \<Rightarrow> int
     \<Rightarrow> decode_state \<times> event list \<times> int" where
  "streaming_loop b maxTokens i kv events n_generated =
     (if i < maxTokens then
        (if vocab_is_eog b (sampler_sample b (nat i) kv) then (kv, events, n_generated)
         else
           (case llama_token_to_piece b (sampler_sample b (nat i) kv) 256 of
              (n_chars, buf) \<Rightarrow>
                (case llama_decode b kv [sampler_sample b (nat i) kv] of
                   (rc, kv') \<Rightarrow>
                     if rc \<noteq> 0 then
                       (kv',
                        if n_chars > 0 then events @ [OnToken (c_str (sanitize_utf8 buf))]
                        else events,
                        n_generated + 1)
                     else
                       streaming_loop b maxTokens (i + 1) kv'
                         (if n_chars > 0 then events @ [OnToken (c_str (sanitize_utf8 buf))]
                          else events)
                         (n_generated + 1))))
      else (kv, events, n_generated))"
  by pat_completeness auto
termination
  by (relation "measure (\<lambda>(b, maxTokens, i, kv, events, n). nat (maxTokens - i))") auto

declare streaming_loop.simps [simp del]

subsection \<open>nativeGenerate\<close>

text \<open>
  What a blocking call returns: every \<^verbatim>\<open>return\<close> hands back a \<^verbatim>\<open>jstring\<close>; the two
  constructors tell the literal error strings from the sanitised response of line 395
  (and 740).
\<close>

datatype reply = ErrorReply string | TextReply "byte list"

text \<open>
  A \<^verbatim>\<open>jstring\<close> argument is \<open>None\<close> when \<^verbatim>\<open>GetStringUTFChars\<close> returns
  \<^verbatim>\<open>nullptr\<close>.
\<close>

definition nativeGenerate ::
  "backend \<Rightarrow> session \<Rightarrow> string option \<Rightarrow> int \<Rightarrow> reply \<times> session" where
  "nativeGenerate b s prompt maxTokens =
     (case (if \<not> g_initialized s \<or> \<not> g_model s then None else g_context s) of
        None \<Rightarrow> (ErrorReply ''Error: Model not loaded'', s)
      | Some kv \<Rightarrow>
          (case prompt of
             None \<Rightarrow> (ErrorReply ''Error: Invalid prompt'', s)
           | Some promptStr \<Rightarrow>
               (case tokenize_prompt b promptStr True True of
                  None \<Rightarrow> (ErrorReply ''Error: Tokenization failed'', s)
                | Some tokens \<Rightarrow>
                    (case decode_chunks b tokens 0 kv of
                       (False, kv1) \<Rightarrow>
                         (ErrorReply ''Error: Prompt processing failed'',
                          s\<lparr>g_context := Some kv1\<rparr>)
                     | (True, kv1) \<Rightarrow>
                         (case sampling_loop b maxTokens 0 kv1 [] 0 of
                            (kv2, response, n_generated) \<Rightarrow>
                              (TextReply (c_str (sanitize_utf8 response)),
                               s\<lparr>g_context := Some kv2\<rparr>))))))"

subsection \<open>nativeGenerateWithCache\<close>

text \<open>Line 459: the cache decision.\<close>

definition cache_hit :: "session \<Rightarrow> string \<Rightarrow> bool" where
  "cache_hit s current_sys_prompt =
     (current_sys_prompt = g_cached_system_prompt s \<and> g_cached_system_length s > 0)"

definition format_system_prompt :: "string \<Rightarrow> string" where
  "format_system_prompt sysStr =
     ''<|startoftext|><|im_start|>system'' @ [CHR 0x0A] @ sysStr @ ''<|im_end|>'' @ [CHR 0x0A]"

definition format_user_prompt :: "string \<Rightarrow> string" where
  "format_user_prompt userStr =
     ''<|im_start|>user'' @ [CHR 0x0A] @ userStr @ ''<|im_end|>'' @ [CHR 0x0A]
       @ ''<|im_start|>assistant'' @ [CHR 0x0A]"

text \<open>Lines 478-496: the hit branch, on the decode state.\<close>

definition cache_hit_trim :: "session \<Rightarrow> decode_state \<Rightarrow> decode_state" where
  "cache_hit_trim s kv =
     (if llama_memory_seq_pos_max kv \<ge> g_cached_system_length s
      then llama_memory_seq_rm kv (g_cached_system_length s)
      else kv)"

text \<open>
  Lines 497-585: the miss branch. \<open>Inl\<close> is an early \<^verbatim>\<open>return\<close> with its error string
  and the state left behind, \<open>Inr\<close> the state and decode state with which the call
  goes on to the user message.
\<close>

definition cache_miss_ingest ::
  "backend \<Rightarrow> session \<Rightarrow> string \<Rightarrow> decode_state
     \<Rightarrow> (string \<times> session) + (session \<times> decode_state)" where
  "cache_miss_ingest b s sysStr kv =
     (case tokenize_prompt b (format_system_prompt sysStr) True True of
        None \<Rightarrow>
          Inl (''Error: System prompt tokenization failed'',
               s\<lparr>g_context := Some (llama_memory_clear kv)\<rparr>)
      | Some sys_tokens \<Rightarrow>
          (case decode_chunks b sys_tokens 0 (llama_memory_clear kv) of
             (False, kv1) \<Rightarrow>
               Inl (''Error: System prompt processing failed'', s\<lparr>g_context := Some kv1\<rparr>)
           | (True, kv1) \<Rightarrow>
               Inr (s\<lparr>g_context := Some kv1,
                      g_cached_system_tokens := sys_tokens,
                      g_cached_system_length := int (length sys_tokens),
                      g_cached_system_prompt := sysStr\<rparr>, kv1)))"

text \<open>
  Lines 587-741: the user message, the sampling loop and the sanitised result, from
  the decode state \<open>kv\<close> that the hit or miss branch left.
\<close>

definition generate_user_turn ::
  "backend \<Rightarrow> session \<Rightarrow> decode_state \<Rightarrow> string \<Rightarrow> int \<Rightarrow> reply \<times> session" where
  "generate_user_turn b s kv userStr maxTokens =
     (case tokenize_prompt b (format_user_prompt userStr) False False of
        None \<Rightarrow>
          (ErrorReply ''Error: User message tokenization failed'', s\<lparr>g_context := Some kv\<rparr>)
      | Some user_tokens \<Rightarrow>
          (case decode_chunks b user_tokens 0 kv of
             (False, kv1) \<Rightarrow>
               (ErrorReply ''Error: User message processing failed'', s\<lparr>g_context := Some kv1\<rparr>)
           | (True, kv1) \<Rightarrow>
               (case sampling_loop b maxTokens 0 kv1 [] 0 of
                  (kv2, response, n_generated) \<Rightarrow>
                    (TextReply (c_str (sanitize_utf8 response)),
                     s\<lparr>g_context := Some kv2\<rparr>))))"

definition nativeGenerateWithCache ::
  "backend \<Rightarrow> session \<Rightarrow> string option \<Rightarrow> string option \<Rightarrow> int \<Rightarrow> reply \<times> session" where
  "nativeGenerateWithCache b s systemPrompt userMessage maxTokens =
     (case (if \<not> g_initialized s \<or> \<not> g_model s then None else g_context s) of
        None \<Rightarrow> (ErrorReply ''Error: Model not loaded'', s)
      | Some kv \<Rightarrow>
          (case (systemPrompt, userMessage) of
             (Some sysStr, Some userStr) \<Rightarrow>
               if cache_hit s sysStr then
                 generate_user_turn b s (cache_hit_trim s kv) userStr maxTokens
               else
                 (case cache_miss_ingest b s sysStr kv of
                    Inl (msg, s1) \<Rightarrow> (ErrorReply msg, s1)
                  | Inr (s1, kv1) \<Rightarrow> generate_user_turn b s1 kv1 userStr maxTokens)
           | _ \<Rightarrow> (ErrorReply ''Error: Invalid prompt'', s)))"

subsection \<open>nativeGenerateStreaming\<close>

text \<open>
  The callback object, by the three \<^verbatim>\<open>GetMethodID\<close> lookups of lines 791-793: a
  lookup yields \<^verbatim>\<open>nullptr\<close> when the object has no such method.
\<close>

record callback =
  has_onToken :: bool
  has_onComplete :: bool
  has_onError :: bool

definition call_onError :: "callback \<Rightarrow> string \<Rightarrow> event" where
  "call_onError cb msg = (if has_onError cb then OnError msg else NullMethodCall)"

definition nativeGenerateStreaming ::
  "backend \<Rightarrow> session \<Rightarrow> callback \<Rightarrow> string option \<Rightarrow> int \<Rightarrow> event list \<times> session" where
  "nativeGenerateStreaming b s cb prompt maxTokens =
     (case (if \<not> g_initialized s \<or> \<not> g_model s then None else g_context s) of
        None \<Rightarrow> ([call_onError cb ''Model not loaded''], s)
      | Some kv \<Rightarrow>
          if \<not> has_onToken cb \<or> \<not> has_onComplete cb \<or> \<not> has_onError cb then ([], s)
          else
            (case prompt of
               None \<Rightarrow> ([OnError ''Invalid prompt''], s)
             | Some promptStr \<Rightarrow>
                 (case tokenize_prompt b promptStr True True of
                    None \<Rightarrow> ([OnError ''Tokenization failed''], s)
                  | Some tokens \<Rightarrow>
                      (case decode_chunks b tokens 0 kv of
                         (False, kv1) \<Rightarrow>
                           ([OnError ''Prompt processing failed''], s\<lparr>g_context := Some kv1\<rparr>)
                       | (True, kv1) \<Rightarrow>
                           (case streaming_loop b maxTokens 0 kv1 [] 0 of
                              (kv2, events, n_generated) \<Rightarrow>
                                (events @ [OnComplete], s\<lparr>g_context := Some kv2\<rparr>))))))"

subsection \<open>Properties stated about the session\<close>

text \<open>
  The invariant of the data model: when the record claims \<open>N > 0\<close> cached prefix
  tokens, positions \<open>0 .. N - 1\<close> of the decode state are resident and hold the
  record's tokens.
\<close>

definition prefix_invariant :: "session \<Rightarrow> bool" where
  "prefix_invariant s =
     (if g_cached_system_length s > 0 then
        (case g_context s of
           None \<Rightarrow> False
         | Some kv \<Rightarrow>
             nat (g_cached_system_length s) \<le> length kv
             \<and> length (g_cached_system_tokens s) = nat (g_cached_system_length s)
             \<and> take (nat (g_cached_system_length s)) kv = g_cached_system_tokens s)
      else True)"

text \<open>The Prefix Cache Record: raw text, tokenized prefix, token count.\<close>

definition prefix_cache_record :: "session \<Rightarrow> string \<times> llama_token list \<times> int" where
  "prefix_cache_record s =
     (g_cached_system_prompt s, g_cached_system_tokens s, g_cached_system_length s)"

text \<open>What a streaming call must look like: token deliveries, then one terminal call.\<close>

fun is_token_event :: "event \<Rightarrow> bool" where
  "is_token_event (OnToken t) = True"
| "is_token_event _ = False"

fun is_terminal_event :: "event \<Rightarrow> bool" where
  "is_terminal_event OnComplete = True"
| "is_terminal_event (OnError msg) = True"
| "is_terminal_event _ = False"

definition streaming_contract :: "event list \<Rightarrow> bool" where
  "streaming_contract events =
     (events \<noteq> [] \<and> is_terminal_event (last events)
      \<and> list_all is_token_event (butlast events))"

subsection \<open>A concrete collaborator for evaluation\<close>

text \<open>
  A small backend on which the operations can be run: one token per character (its
  code), preceded by the begin marker 1 when special tokens are added; token 2 ends
  generation; the sampler draws \<open>104, 105\<close> and then 2; a token's fragment is the
  byte of its code. \<open>failing_backend\<close> differs in that decoding a single token fails
  (prompt chunks of several tokens are accepted).
\<close>

definition demo_backend :: backend where
  "demo_backend =
     \<lparr>vocab_tokenize = (\<lambda>text add_special parse_special.
          (if add_special then [1] else []) @ map (\<lambda>c. int (of_char c :: nat)) text),
      decode_fails = (\<lambda>kv batch. False),
      sampler_sample = (\<lambda>i kv. if i = 0 then 104 else if i = 1 then 105 else 2),
      vocab_is_eog = (\<lambda>t. t = 2),
      token_piece = (\<lambda>t. [word_of_int t])\<rparr>"

definition failing_backend :: backend where
  "failing_backend = demo_backend\<lparr>decode_fails := (\<lambda>kv batch. length batch = 1)\<rparr>"

text \<open>A backend whose context window holds \<open>n_ctx\<close> positions: a batch that does not fit fails.\<close>

definition limited_backend :: "nat \<Rightarrow> backend" where
  "limited_backend n_ctx =
     demo_backend\<lparr>decode_fails := (\<lambda>kv batch. length kv + length batch > n_ctx)\<rparr>"

text \<open>A backend whose tokenizer yields no token, so that tokenizing fails.\<close>

definition mute_backend :: backend where
  "mute_backend = demo_backend\<lparr>vocab_tokenize := (\<lambda>text add_special parse_special. [])\<rparr>"

definition full_callback :: callback where
  "full_callback = \<lparr>has_onToken = True, has_onComplete = True, has_onError = True\<rparr>"

definition loaded_session :: session where
  "loaded_session = snd (nativeLoadModel initial_session LoadOk)"

text \<open>
  A session in which the system prompt \<open>S\<close> was cached by one turn, and the same
  session after the model was loaded again.
\<close>

definition cached_session :: session where
  "cached_session =
     snd (nativeGenerateWithCache demo_backend loaded_session (Some ''S'') (Some ''u'') 0)"

definition reloaded_session :: session where
  "reloaded_session = snd (nativeLoadModel cached_session LoadOk)"

text \<open>The next turn on the reloaded session, with the system prompt that is cached.\<close>

definition turn_after_reload :: "reply \<times> session" where
  "turn_after_reload =
     nativeGenerateWithCache demo_backend reloaded_session (Some ''S'') (Some ''v'') 0"


section \<open>Facts about the sanitisation pass\<close>

lemma int_and_c0: "(i::int) AND 192 = 64 * ((i div 64) mod 4)"
proof -
  have "(192::int) = mask 8 AND NOT (mask 6)" by (simp add: mask_eq_exp_minus_1)
  then have "i AND 192 = i AND mask (2 + 6) AND NOT (mask 6)"
    by (simp add: and.assoc)
  also have "\<dots> = push_bit 6 (take_bit 2 (drop_bit 6 i))"
    by (rule slice_eq_mask [symmetric])
  also have "\<dots> = 64 * ((i div 64) mod 4)"
    by (simp add: push_bit_eq_mult take_bit_eq_mod drop_bit_eq_div)
  finally show ?thesis .
qed

lemma int_and_c0_range:
  assumes "0 \<le> (i::int)" "i < 256"
  shows "(i AND 192 = 128) = (128 \<le> i \<and> i \<le> 191)"
proof -
  define q where "q = i div 64"
  have q0: "0 \<le> q" using assms(1) by (simp add: q_def pos_imp_zdiv_nonneg_iff)
  have q4: "q < 4" using assms unfolding q_def by arith
  have qm: "q mod 4 = q" using q0 q4 by simp
  have "(i AND 192 = 128) = (64 * q = 128)"
    by (simp only: int_and_c0 q_def [symmetric] qm)
  also have "\<dots> = (q = 2)" by arith
  also have "\<dots> = (128 \<le> i \<and> i \<le> 191)"
    unfolding q_def by arith
  finally show ?thesis .
qed

lemma continuation_byte_iff: "(c AND 0xC0 = (0x80::byte)) = utf8_tail c"
proof -
  have lt: "uint c < 256" using uint_bounded [of c] by simp
  have ge: "0 \<le> uint c" by simp
  have "(c AND 0xC0 = 0x80) = (uint (c AND 0xC0) = uint (0x80::byte))"
    by (simp only: word_uint_eq_iff)
  also have "\<dots> = (uint c AND 192 = 128)"
    by (simp add: uint_and)
  also have "\<dots> = (128 \<le> uint c \<and> uint c \<le> 191)"
    by (rule int_and_c0_range [OF ge lt])
  also have "\<dots> = utf8_tail c"
    by (simp add: word_le_def utf8_tail_def)
  finally show ?thesis .
qed


lemma utf8_scan_drop:
  assumes "i < length response"
  shows "utf8_scan (drop i response) =
     (if response ! i \<le> 0x7F then response ! i # utf8_scan (drop (i + 1) response)
      else if 0xC0 \<le> response ! i \<and> response ! i \<le> 0xDF \<and> i + 1 < length response
              \<and> (response ! (i + 1)) AND 0xC0 = 0x80 then
        [response ! i, response ! (i + 1)] @ utf8_scan (drop (i + 2) response)
      else if 0xE0 \<le> response ! i \<and> response ! i \<le> 0xEF \<and> i + 2 < length response
              \<and> (response ! (i + 1)) AND 0xC0 = 0x80
              \<and> (response ! (i + 2)) AND 0xC0 = 0x80 then
        [response ! i, response ! (i + 1), response ! (i + 2)]
          @ utf8_scan (drop (i + 3) response)
      else if 0xF0 \<le> response ! i \<and> response ! i \<le> 0xF7 \<and> i + 3 < length response
              \<and> (response ! (i + 1)) AND 0xC0 = 0x80
              \<and> (response ! (i + 2)) AND 0xC0 = 0x80
              \<and> (response ! (i + 3)) AND 0xC0 = 0x80 then
        [response ! i, response ! (i + 1), response ! (i + 2), response ! (i + 3)]
          @ utf8_scan (drop (i + 4) response)
      else utf8_scan (drop (i + 1) response))"
proof -
  let ?rest = "drop (Suc i) response"
  have d0: "drop i response = response ! i # ?rest"
    using assms by (simp add: Cons_nth_drop_Suc)
  have l1: "(1 \<le> length ?rest) = (i + 1 < length response)"
    and l2: "(2 \<le> length ?rest) = (i + 2 < length response)"
    and l3: "(3 \<le> length ?rest) = (i + 3 < length response)"
    by auto
  have n0: "i + 1 < length response \<Longrightarrow> ?rest ! 0 = response ! (i + 1)"
    and n1: "i + 2 < length response \<Longrightarrow> ?rest ! 1 = response ! (i + 2)"
    by (simp_all add: add.commute)
  have n2: "i + 3 < length response \<Longrightarrow> ?rest ! 2 = response ! (i + 3)"
    by (simp add: numeral_3_eq_3)
  have t1: "i + 1 < length response \<Longrightarrow> take 1 ?rest = [response ! (i + 1)]"
    by (simp add: take_Suc_conv_app_nth)
  have t2: "i + 2 < length response \<Longrightarrow>
      take 2 ?rest = [response ! (i + 1), response ! (i + 2)]"
    by (simp add: take_Suc_conv_app_nth numeral_2_eq_2)
  have t3: "i + 3 < length response \<Longrightarrow>
      take 3 ?rest = [response ! (i + 1), response ! (i + 2), response ! (i + 3)]"
    by (simp add: take_Suc_conv_app_nth numeral_3_eq_3)
  have r1: "drop 1 ?rest = drop (i + 2) response"
    and r2: "drop 2 ?rest = drop (i + 3) response"
    and r3: "drop 3 ?rest = drop (i + 4) response"
    and r0: "?rest = drop (i + 1) response"
    by (simp_all add: eval_nat_numeral)
  have c2: "(1 \<le> length ?rest \<and> (?rest ! 0) AND 0xC0 = 0x80)
      = (i + 1 < length response \<and> (response ! (i + 1)) AND 0xC0 = 0x80)"
    using n0 l1 by metis
  have c3: "(2 \<le> length ?rest \<and> (?rest ! 0) AND 0xC0 = 0x80 \<and> (?rest ! 1) AND 0xC0 = 0x80)
      = (i + 2 < length response \<and> (response ! (i + 1)) AND 0xC0 = 0x80
          \<and> (response ! (i + 2)) AND 0xC0 = 0x80)"
  proof (cases "i + 2 < length response")
    case True
    then have "i + 1 < length response" by simp
    with True show ?thesis using n0 n1 l2 by simp
  next
    case False
    then show ?thesis using l2 by simp
  qed
  have c4: "(3 \<le> length ?rest \<and> (?rest ! 0) AND 0xC0 = 0x80 \<and> (?rest ! 1) AND 0xC0 = 0x80
          \<and> (?rest ! 2) AND 0xC0 = 0x80)
      = (i + 3 < length response \<and> (response ! (i + 1)) AND 0xC0 = 0x80
          \<and> (response ! (i + 2)) AND 0xC0 = 0x80 \<and> (response ! (i + 3)) AND 0xC0 = 0x80)"
  proof (cases "i + 3 < length response")
    case True
    then have "i + 1 < length response" "i + 2 < length response" by simp_all
    with True show ?thesis using n0 n1 n2 l3 by simp
  next
    case False
    then show ?thesis using l3 by simp
  qed
  have unfold: "utf8_scan (drop i response) =
     (if response ! i \<le> 0x7F then response ! i # utf8_scan ?rest
      else if 0xC0 \<le> response ! i \<and> response ! i \<le> 0xDF \<and> i + 1 < length response
              \<and> (response ! (i + 1)) AND 0xC0 = 0x80 then
        response ! i # take 1 ?rest @ utf8_scan (drop 1 ?rest)
      else if 0xE0 \<le> response ! i \<and> response ! i \<le> 0xEF \<and> i + 2 < length response
              \<and> (response ! (i + 1)) AND 0xC0 = 0x80
              \<and> (response ! (i + 2)) AND 0xC0 = 0x80 then
        response ! i # take 2 ?rest @ utf8_scan (drop 2 ?rest)
      else if 0xF0 \<le> response ! i \<and> response ! i \<le> 0xF7 \<and> i + 3 < length response
              \<and> (response ! (i + 1)) AND 0xC0 = 0x80
              \<and> (response ! (i + 2)) AND 0xC0 = 0x80
              \<and> (response ! (i + 3)) AND 0xC0 = 0x80 then
        response ! i # take 3 ?rest @ utf8_scan (drop 3 ?rest)
      else utf8_scan ?rest)"
    by (simp only: d0 utf8_scan.simps c2 c3 c4)
  show ?thesis
    unfolding unfold r1 r2 r3 using t1 t2 t3 by (simp cong: if_cong)
qed

lemma sanitize_from_scan:
  "sanitize_from response i sanitized = sanitized @ utf8_scan (drop i response)"
proof (induction response i sanitized rule: sanitize_from.induct)
  case (1 response i sanitized)
  show ?case
  proof (cases "i < length response")
    case False
    then show ?thesis by (subst sanitize_from.simps) simp
  next
    case True
    show ?thesis
      apply (subst sanitize_from.simps)
      apply (subst utf8_scan_drop [OF True])
      using "1.IH" True
      apply (simp only: if_True)
      apply (simp cong: if_cong)
      done
  qed
qed

lemma sanitize_utf8_scan: "sanitize_utf8 bs = utf8_scan bs"
  by (simp add: sanitize_utf8_def sanitize_from_scan)

lemma utf8_scan_ascii: "b0 \<le> 0x7F \<Longrightarrow> utf8_scan (b0 # rest) = b0 # utf8_scan rest"
  by simp

lemma utf8_scan_two:
  assumes "0xC0 \<le> b0" "b0 \<le> 0xDF" "utf8_tail b1"
  shows "utf8_scan (b0 # b1 # rest) = b0 # b1 # utf8_scan rest"
proof -
  have "\<not> b0 \<le> 0x7F" using assms(1) by (simp add: word_le_def)
  moreover have "b1 AND 0xC0 = 0x80" using assms(3) by (simp add: continuation_byte_iff)
  ultimately show ?thesis using assms(1,2) by simp
qed

lemma utf8_scan_three:
  assumes "0xE0 \<le> b0" "b0 \<le> 0xEF" "utf8_tail b1" "utf8_tail b2"
  shows "utf8_scan (b0 # b1 # b2 # rest) = b0 # b1 # b2 # utf8_scan rest"
proof -
  have "\<not> b0 \<le> 0x7F" "\<not> b0 \<le> 0xDF" using assms(1) by (simp_all add: word_le_def)
  moreover have "b1 AND 0xC0 = 0x80" "b2 AND 0xC0 = 0x80"
    using assms(3,4) by (simp_all add: continuation_byte_iff)
  ultimately show ?thesis using assms(1,2) by simp
qed

lemma utf8_scan_four:
  assumes "0xF0 \<le> b0" "b0 \<le> 0xF7" "utf8_tail b1" "utf8_tail b2" "utf8_tail b3"
  shows "utf8_scan (b0 # b1 # b2 # b3 # rest) = b0 # b1 # b2 # b3 # utf8_scan rest"
proof -
  have "\<not> b0 \<le> 0x7F" "\<not> b0 \<le> 0xDF" "\<not> b0 \<le> 0xEF"
    using assms(1) by (simp_all add: word_le_def)
  moreover have "b1 AND 0xC0 = 0x80" "b2 AND 0xC0 = 0x80" "b3 AND 0xC0 = 0x80"
    using assms(3,4,5) by (simp_all add: continuation_byte_iff)
  ultimately show ?thesis using assms(1,2) by simp
qed

lemma codepoint3_shape:
  assumes "utf8_codepoint [b0, b1, b2]"
  shows "0xE0 \<le> b0 \<and> b0 \<le> 0xEF \<and> utf8_tail b1 \<and> utf8_tail b2"
proof -
  from assms consider
      "b0 = 0xE0" "0xA0 \<le> b1" "b1 \<le> 0xBF" "utf8_tail b2"
    | "0xE1 \<le> b0" "b0 \<le> 0xEC" "utf8_tail b1" "utf8_tail b2"
    | "b0 = 0xED" "0x80 \<le> b1" "b1 \<le> 0x9F" "utf8_tail b2"
    | "0xEE \<le> b0" "b0 \<le> 0xEF" "utf8_tail b1" "utf8_tail b2"
    by auto
  then show ?thesis
    by cases (simp_all add: utf8_tail_def word_le_def)
qed

lemma codepoint4_shape:
  assumes "utf8_codepoint [b0, b1, b2, b3]"
  shows "0xF0 \<le> b0 \<and> b0 \<le> 0xF7 \<and> utf8_tail b1 \<and> utf8_tail b2 \<and> utf8_tail b3"
proof -
  from assms consider
      "b0 = 0xF0" "0x90 \<le> b1" "b1 \<le> 0xBF" "utf8_tail b2" "utf8_tail b3"
    | "0xF1 \<le> b0" "b0 \<le> 0xF3" "utf8_tail b1" "utf8_tail b2" "utf8_tail b3"
    | "b0 = 0xF4" "0x80 \<le> b1" "b1 \<le> 0x8F" "utf8_tail b2" "utf8_tail b3"
    by auto
  then show ?thesis
    by cases (simp_all add: utf8_tail_def word_le_def)
qed

lemma codepoint2_shape:
  assumes "utf8_codepoint [b0, b1]"
  shows "0xC0 \<le> b0 \<and> b0 \<le> 0xDF \<and> utf8_tail b1"
  using assms by (simp add: word_le_def)

lemma utf8_scan_codepoint:
  assumes "utf8_codepoint cp"
  shows "utf8_scan (cp @ rest) = cp @ utf8_scan rest"
proof (cases cp rule: utf8_codepoint.cases)
  case (1 b0)
  from assms have "b0 \<le> 0x7F" unfolding 1 by (simp only: utf8_codepoint.simps)
  then show ?thesis unfolding 1 by (simp only: append.simps utf8_scan_ascii)
next
  case (2 b0 b1)
  from assms have "utf8_codepoint [b0, b1]" unfolding 2 .
  from codepoint2_shape [OF this]
  have "0xC0 \<le> b0" "b0 \<le> 0xDF" "utf8_tail b1" by blast+
  then show ?thesis unfolding 2 by (simp only: append.simps utf8_scan_two)
next
  case (3 b0 b1 b2)
  from assms have "utf8_codepoint [b0, b1, b2]" unfolding 3 .
  from codepoint3_shape [OF this]
  have "0xE0 \<le> b0" "b0 \<le> 0xEF" "utf8_tail b1" "utf8_tail b2" by blast+
  then show ?thesis unfolding 3 by (simp only: append.simps utf8_scan_three)
next
  case (4 b0 b1 b2 b3)
  from assms have "utf8_codepoint [b0, b1, b2, b3]" unfolding 4 .
  from codepoint4_shape [OF this]
  have "0xF0 \<le> b0" "b0 \<le> 0xF7" "utf8_tail b1" "utf8_tail b2" "utf8_tail b3" by blast+
  then show ?thesis unfolding 4 by (simp only: append.simps utf8_scan_four)
qed (use assms in simp_all)

lemma utf8_scan_concat:
  "list_all utf8_codepoint cps \<Longrightarrow> utf8_scan (concat cps @ rest) = concat cps @ utf8_scan rest"
proof (induction cps)
  case Nil
  show ?case by simp
next
  case (Cons cp cps)
  then have cp: "utf8_codepoint cp" and rest: "list_all utf8_codepoint cps" by simp_all
  have "utf8_scan (concat (cp # cps) @ rest) = utf8_scan (cp @ (concat cps @ rest))" by simp
  also have "\<dots> = cp @ utf8_scan (concat cps @ rest)" by (rule utf8_scan_codepoint [OF cp])
  also have "\<dots> = cp @ concat cps @ utf8_scan rest" by (simp only: Cons.IH [OF rest])
  finally show ?case by simp
qed

lemma utf8_scan_tail_drop:
  assumes "utf8_tail b"
  shows "utf8_scan (b # rest) = utf8_scan rest"
proof -
  have "\<not> b \<le> 0x7F" "\<not> 0xC0 \<le> b" "\<not> 0xE0 \<le> b" "\<not> 0xF0 \<le> b"
    using assms by (simp_all add: utf8_tail_def word_le_def)
  then show ?thesis by simp
qed

lemma utf8_scan_lead_alone:
  assumes "0xC0 \<le> b0"
  shows "utf8_scan [b0] = []"
proof -
  have "\<not> b0 \<le> 0x7F" using assms by (simp add: word_le_def)
  then show ?thesis by simp
qed

lemma utf8_scan_lead_short:
  assumes "0xE0 \<le> b0"
  shows "utf8_scan [b0, b1] = utf8_scan [b1]"
proof -
  have "\<not> b0 \<le> 0x7F" "\<not> b0 \<le> 0xDF" using assms by (simp_all add: word_le_def)
  then show ?thesis by simp
qed

lemma utf8_scan_lead_short2:
  assumes "0xF0 \<le> b0"
  shows "utf8_scan [b0, b1, b2] = utf8_scan [b1, b2]"
proof -
  have "\<not> b0 \<le> 0x7F" "\<not> b0 \<le> 0xDF" "\<not> b0 \<le> 0xEF"
    using assms by (simp_all add: word_le_def)
  then show ?thesis by simp
qed

lemma utf8_scan_partial:
  assumes "utf8_codepoint cp" "1 \<le> k" "k < length cp"
  shows "utf8_scan (take (length cp - k) cp) = []"
proof (cases cp rule: utf8_codepoint.cases)
  case (1 b0)
  with assms(2,3) show ?thesis by simp
next
  case (2 b0 b1)
  from assms(1) have "utf8_codepoint [b0, b1]" unfolding 2 .
  from codepoint2_shape [OF this] have lead: "0xC0 \<le> b0" by blast
  from assms(2,3) have "k = 1" unfolding 2 by simp
  then have "take (length cp - k) cp = [b0]" unfolding 2 by simp
  then show ?thesis by (simp only: utf8_scan_lead_alone [OF lead])
next
  case (3 b0 b1 b2)
  from assms(1) have "utf8_codepoint [b0, b1, b2]" unfolding 3 .
  from codepoint3_shape [OF this]
  have lead: "0xE0 \<le> b0" and t1: "utf8_tail b1" by blast+
  from lead have lead': "0xC0 \<le> b0" by (simp add: word_le_def)
  from assms(2,3) have "k = 1 \<or> k = 2" unfolding 3 by auto
  then have "take (length cp - k) cp = [b0, b1] \<or> take (length cp - k) cp = [b0]"
    unfolding 3 by (auto simp add: numeral_2_eq_2)
  then show ?thesis
    by (auto simp only: utf8_scan_lead_short [OF lead] utf8_scan_tail_drop [OF t1]
        utf8_scan_lead_alone [OF lead'] utf8_scan.simps(1))
next
  case (4 b0 b1 b2 b3)
  from assms(1) have "utf8_codepoint [b0, b1, b2, b3]" unfolding 4 .
  from codepoint4_shape [OF this]
  have lead: "0xF0 \<le> b0" and t1: "utf8_tail b1" and t2: "utf8_tail b2" by blast+
  from lead have lead': "0xC0 \<le> b0" and lead'': "0xE0 \<le> b0" by (simp_all add: word_le_def)
  from assms(2,3) have "k = 1 \<or> k = 2 \<or> k = 3" unfolding 4 by auto
  then have "take (length cp - k) cp = [b0, b1, b2] \<or> take (length cp - k) cp = [b0, b1]
      \<or> take (length cp - k) cp = [b0]"
    unfolding 4 by (auto simp add: numeral_2_eq_2 numeral_3_eq_3)
  then show ?thesis
    by (auto simp only: utf8_scan_lead_short2 [OF lead] utf8_scan_lead_short [OF lead'']
        utf8_scan_tail_drop [OF t1] utf8_scan_tail_drop [OF t2]
        utf8_scan_lead_alone [OF lead'] utf8_scan.simps(1))
qed (use assms in simp_all)

lemma subseq_take_drop: "subseq xs (drop n ys) \<Longrightarrow> subseq (take n ys @ xs) ys"
  using subseq_append' [of "take n ys" xs "drop n ys"] by simp

lemma subseq_utf8_scan: "subseq (utf8_scan bs) bs"
proof (induction bs rule: utf8_scan.induct)
  case 1
  show ?case by simp
next
  case (2 c rest)
  let ?P2 = "0xC0 \<le> c \<and> c \<le> 0xDF \<and> 1 \<le> length rest \<and> (rest ! 0) AND 0xC0 = 0x80"
  let ?P3 = "0xE0 \<le> c \<and> c \<le> 0xEF \<and> 2 \<le> length rest \<and> (rest ! 0) AND 0xC0 = 0x80
              \<and> (rest ! 1) AND 0xC0 = 0x80"
  let ?P4 = "0xF0 \<le> c \<and> c \<le> 0xF7 \<and> 3 \<le> length rest \<and> (rest ! 0) AND 0xC0 = 0x80
              \<and> (rest ! 1) AND 0xC0 = 0x80 \<and> (rest ! 2) AND 0xC0 = 0x80"
  consider (ascii) "c \<le> 0x7F"
    | (two) "\<not> c \<le> 0x7F" "?P2"
    | (three) "\<not> c \<le> 0x7F" "\<not> ?P2" "?P3"
    | (four) "\<not> c \<le> 0x7F" "\<not> ?P2" "\<not> ?P3" "?P4"
    | (skip) "\<not> c \<le> 0x7F" "\<not> ?P2" "\<not> ?P3" "\<not> ?P4"
    by blast
  then show ?case
  proof cases
    case ascii
    have "utf8_scan (c # rest) = c # utf8_scan rest"
      by (simp only: utf8_scan.simps if_P [OF ascii])
    then show ?thesis using "2.IH"(1) [OF ascii] by simp
  next
    case two
    have "utf8_scan (c # rest) = c # take 1 rest @ utf8_scan (drop 1 rest)"
      by (simp only: utf8_scan.simps if_not_P [OF two(1)] if_P [OF two(2)])
    then show ?thesis
      using subseq_take_drop [OF "2.IH"(2) [OF two]] by simp
  next
    case three
    have "utf8_scan (c # rest) = c # take 2 rest @ utf8_scan (drop 2 rest)"
      by (simp only: utf8_scan.simps if_not_P [OF three(1)] if_not_P [OF three(2)]
          if_P [OF three(3)])
    then show ?thesis
      using subseq_take_drop [OF "2.IH"(3) [OF three]] by simp
  next
    case four
    have "utf8_scan (c # rest) = c # take 3 rest @ utf8_scan (drop 3 rest)"
      by (simp only: utf8_scan.simps if_not_P [OF four(1)] if_not_P [OF four(2)]
          if_not_P [OF four(3)] if_P [OF four(4)])
    then show ?thesis
      using subseq_take_drop [OF "2.IH"(4) [OF four]] by simp
  next
    case skip
    have "utf8_scan (c # rest) = utf8_scan rest"
      by (simp only: utf8_scan.simps if_not_P [OF skip(1)] if_not_P [OF skip(2)]
          if_not_P [OF skip(3)] if_not_P [OF skip(4)])
    then show ?thesis
      using list_emb_Cons [OF "2.IH"(5) [OF skip]] by (simp only:)
  qed
qed

section \<open>General facts about the model\<close>

subsection \<open>Tokenizing\<close>

lemma tokenize_prompt_eq:
  "tokenize_prompt b text add_special parse_special =
     (if vocab_tokenize b text add_special parse_special = [] then None
      else Some (vocab_tokenize b text add_special parse_special))"
  by (cases "vocab_tokenize b text add_special parse_special")
     (simp_all add: tokenize_prompt_def llama_tokenize_def Let_def)

lemma tokenize_prompt_Some_nonempty:
  "tokenize_prompt b text add_special parse_special = Some toks \<Longrightarrow> toks \<noteq> []"
  by (auto simp add: tokenize_prompt_eq split: if_splits)

subsection \<open>Chunked ingestion\<close>

lemma decode_chunks_result:
  "decode_chunks b tokens tokens_processed kv = (ok, kv') \<Longrightarrow>
     \<exists>n. n \<le> length tokens - tokens_processed
       \<and> kv' = kv @ take n (drop tokens_processed tokens)
       \<and> (ok \<longrightarrow> n = length tokens - tokens_processed)"
proof (induction b tokens tokens_processed kv rule: decode_chunks.induct)
  case (1 b tokens tokens_processed kv)
  let ?c = "min CHUNK_SIZE (length tokens - tokens_processed)"
  let ?batch = "take ?c (drop tokens_processed tokens)"
  show ?case
  proof (cases "tokens_processed < length tokens")
    case False
    with "1.prems" have "ok" "kv' = kv"
      by (simp_all add: decode_chunks.simps [of b tokens tokens_processed kv])
    with False show ?thesis by simp
  next
    case True
    show ?thesis
    proof (cases "decode_fails b kv ?batch")
      case fails: True
      with True "1.prems" have "\<not> ok" "kv' = kv"
        by (simp_all add: decode_chunks.simps [of b tokens tokens_processed kv] llama_decode_def)
      then show ?thesis by (intro exI [of _ 0]) simp
    next
      case succeeds: False
      then have dec: "llama_decode b kv ?batch = (0, kv @ ?batch)"
        by (simp add: llama_decode_def)
      with True "1.prems"
      have rec: "decode_chunks b tokens (tokens_processed + ?c) (kv @ ?batch) = (ok, kv')"
        by (simp add: decode_chunks.simps [of b tokens tokens_processed kv])
      from "1.IH" [OF True dec [symmetric] _ rec]
      obtain n where n: "n \<le> length tokens - (tokens_processed + ?c)"
        "kv' = (kv @ ?batch) @ take n (drop (tokens_processed + ?c) tokens)"
        "ok \<longrightarrow> n = length tokens - (tokens_processed + ?c)"
        by auto
      have "drop ?c (drop tokens_processed tokens) = drop (tokens_processed + ?c) tokens"
        by (simp only: drop_drop add.commute)
      then have "?batch @ take n (drop (tokens_processed + ?c) tokens)
            = take (?c + n) (drop tokens_processed tokens)"
        by (simp only: take_add)
      with n have "kv' = kv @ take (?c + n) (drop tokens_processed tokens)" by simp
      moreover have "?c + n \<le> length tokens - tokens_processed" using n(1) True by simp
      moreover have "ok \<longrightarrow> ?c + n = length tokens - tokens_processed" using n(3) True by simp
      ultimately show ?thesis by blast
    qed
  qed
qed

lemma decode_chunks_ok:
  assumes "decode_chunks b tokens 0 kv = (True, kv')"
  shows "kv' = kv @ tokens"
  using decode_chunks_result [OF assms] by auto

lemma decode_chunks_prefix:
  assumes "decode_chunks b tokens 0 kv = (ok, kv')"
  shows "\<exists>n. kv' = kv @ take n tokens"
  using decode_chunks_result [OF assms] by auto

subsection \<open>The sampling loops, one step at a time\<close>

lemma sampling_loop_step:
  "sampling_loop b maxTokens i kv response n_generated =
     (if i < maxTokens then
        (if vocab_is_eog b (sampler_sample b (nat i) kv) then (kv, response, n_generated)
         else if decode_fails b kv [sampler_sample b (nat i) kv] then
           (kv,
            response @ (if length (token_piece b (sampler_sample b (nat i) kv)) \<le> 256
                        then token_piece b (sampler_sample b (nat i) kv) else []),
            n_generated + 1)
         else
           sampling_loop b maxTokens (i + 1) (kv @ [sampler_sample b (nat i) kv])
             (response @ (if length (token_piece b (sampler_sample b (nat i) kv)) \<le> 256
                          then token_piece b (sampler_sample b (nat i) kv) else []))
             (n_generated + 1))
      else (kv, response, n_generated))"
  by (subst sampling_loop.simps)
     (simp add: llama_token_to_piece_def llama_decode_def Let_def)

lemma streaming_loop_step:
  "streaming_loop b maxTokens i kv events n_generated =
     (if i < maxTokens then
        (if vocab_is_eog b (sampler_sample b (nat i) kv) then (kv, events, n_generated)
         else if decode_fails b kv [sampler_sample b (nat i) kv] then
           (kv,
            events @ (if 0 < length (token_piece b (sampler_sample b (nat i) kv))
                          \<and> length (token_piece b (sampler_sample b (nat i) kv)) \<le> 256
                      then [OnToken (c_str (sanitize_utf8
                                (token_piece b (sampler_sample b (nat i) kv))))]
                      else []),
            n_generated + 1)
         else
           streaming_loop b maxTokens (i + 1) (kv @ [sampler_sample b (nat i) kv])
             (events @ (if 0 < length (token_piece b (sampler_sample b (nat i) kv))
                           \<and> length (token_piece b (sampler_sample b (nat i) kv)) \<le> 256
                        then [OnToken (c_str (sanitize_utf8
                                  (token_piece b (sampler_sample b (nat i) kv))))]
                        else []))
             (n_generated + 1))
      else (kv, events, n_generated))"
  by (subst streaming_loop.simps)
     (simp add: llama_token_to_piece_def llama_decode_def Let_def)


subsection \<open>Invariants of the sampling loops\<close>

lemma sampling_loop_inv:
  "sampling_loop b maxTokens i kv response n = (kv', response', n') \<Longrightarrow>
     prefix kv kv' \<and> prefix response response' \<and> n \<le> n' \<and> n' - n \<le> max 0 (maxTokens - i)
     \<and> int (length kv') \<le> int (length kv) + (n' - n)
     \<and> (\<forall>t \<in> set (drop (length kv) kv'). \<not> vocab_is_eog b t)"
proof (induction "nat (maxTokens - i)" arbitrary: i kv response n)
  case 0
  then have "\<not> i < maxTokens" by simp
  then have "sampling_loop b maxTokens i kv response n = (kv, response, n)"
    by (subst sampling_loop_step) (simp only: if_False)
  with "0.prems" have "kv' = kv" "response' = response" "n' = n"
    by simp_all
  then show ?case by simp
next
  case (Suc k)
  let ?tok = "sampler_sample b (nat i) kv"
  let ?piece = "if length (token_piece b ?tok) \<le> 256 then token_piece b ?tok else []"
  from Suc.hyps(2) have lt: "i < maxTokens" by simp
  show ?case
  proof (cases "vocab_is_eog b ?tok")
    case True
    have "sampling_loop b maxTokens i kv response n = (kv, response, n)"
      by (subst sampling_loop_step) (simp only: lt True if_True)
    with Suc.prems have "kv' = kv" "response' = response" "n' = n"
      by simp_all
    then show ?thesis using lt by simp
  next
    case noeog: False
    show ?thesis
    proof (cases "decode_fails b kv [?tok]")
      case True
      have "sampling_loop b maxTokens i kv response n = (kv, response @ ?piece, n + 1)"
        by (subst sampling_loop_step) (simp only: lt noeog True if_True if_False)
      with Suc.prems [symmetric] have "(kv', response', n') = (kv, response @ ?piece, n + 1)"
        by (rule trans)
      then have "kv' = kv" "response' = response @ ?piece" "n' = n + 1"
        unfolding prod.inject by blast+
      then show ?thesis using lt by simp
    next
      case False
      have "sampling_loop b maxTokens i kv response n
            = sampling_loop b maxTokens (i + 1) (kv @ [?tok]) (response @ ?piece) (n + 1)"
        by (subst sampling_loop_step) (simp only: lt noeog False if_True if_False)
      with Suc.prems
      have rec: "sampling_loop b maxTokens (i + 1) (kv @ [?tok]) (response @ ?piece) (n + 1)
                 = (kv', response', n')"
        by simp
      from Suc.hyps(2) have k: "k = nat (maxTokens - (i + 1))" by simp
      from Suc.hyps(1) [OF k rec]
      have ih: "prefix (kv @ [?tok]) kv'" "prefix (response @ ?piece) response'"
        "n + 1 \<le> n'" "n' - (n + 1) \<le> max 0 (maxTokens - (i + 1))"
        "int (length kv') \<le> int (length (kv @ [?tok])) + (n' - (n + 1))"
        "\<forall>t \<in> set (drop (length (kv @ [?tok])) kv'). \<not> vocab_is_eog b t"
        by blast+
      from ih(1) obtain zs where kv': "kv' = kv @ ?tok # zs" by (auto simp add: prefix_def)
      have p1: "prefix kv kv'" using ih(1) by (rule append_prefixD)
      have p2: "prefix response response'" using ih(2) by (rule append_prefixD)
      have d: "drop (length kv) kv' = ?tok # zs" using kv' by simp
      have d': "drop (length (kv @ [?tok])) kv' = zs" using kv' by simp
      have noe: "\<forall>t \<in> set (drop (length kv) kv'). \<not> vocab_is_eog b t"
        using ih(6) noeog unfolding d d' by simp
      show ?thesis using p1 p2 ih(3,4,5) noe lt by simp
    qed
  qed
qed

lemma streaming_loop_inv:
  "streaming_loop b maxTokens i kv events n = (kv', events', n') \<Longrightarrow>
     prefix kv kv' \<and> n \<le> n' \<and> n' - n \<le> max 0 (maxTokens - i)
     \<and> int (length kv') \<le> int (length kv) + (n' - n)
     \<and> (\<forall>t \<in> set (drop (length kv) kv'). \<not> vocab_is_eog b t)
     \<and> (\<exists>new. events' = events @ new \<and> list_all is_token_event new
            \<and> int (length new) \<le> n' - n)"
proof (induction "nat (maxTokens - i)" arbitrary: i kv events n)
  case 0
  then have "\<not> i < maxTokens" by simp
  then have "streaming_loop b maxTokens i kv events n = (kv, events, n)"
    by (subst streaming_loop_step) (simp only: if_False)
  with "0.prems" have "kv' = kv" "events' = events" "n' = n"
    by simp_all
  then show ?case by simp
next
  case (Suc k)
  let ?tok = "sampler_sample b (nat i) kv"
  let ?ev = "if 0 < length (token_piece b ?tok) \<and> length (token_piece b ?tok) \<le> 256
             then [OnToken (c_str (sanitize_utf8 (token_piece b ?tok)))] else []"
  have ev: "list_all is_token_event ?ev" "length ?ev \<le> 1" by simp_all
  from Suc.hyps(2) have lt: "i < maxTokens" by simp
  show ?case
  proof (cases "vocab_is_eog b ?tok")
    case True
    have "streaming_loop b maxTokens i kv events n = (kv, events, n)"
      by (subst streaming_loop_step) (simp only: lt True if_True)
    with Suc.prems have "kv' = kv" "events' = events" "n' = n"
      by simp_all
    then show ?thesis using lt by simp
  next
    case noeog: False
    show ?thesis
    proof (cases "decode_fails b kv [?tok]")
      case True
      have "streaming_loop b maxTokens i kv events n = (kv, events @ ?ev, n + 1)"
        by (subst streaming_loop_step) (simp only: lt noeog True if_True if_False)
      with Suc.prems [symmetric] have "(kv', events', n') = (kv, events @ ?ev, n + 1)"
        by (rule trans)
      then have r: "kv' = kv" "events' = events @ ?ev" "n' = n + 1"
        unfolding prod.inject by blast+
      have "\<exists>new. events' = events @ new \<and> list_all is_token_event new
              \<and> int (length new) \<le> n' - n"
        using r(2,3) ev by (intro exI [of _ ?ev]) simp
      then show ?thesis using r(1,3) lt by simp
    next
      case False
      have "streaming_loop b maxTokens i kv events n
            = streaming_loop b maxTokens (i + 1) (kv @ [?tok]) (events @ ?ev) (n + 1)"
        by (subst streaming_loop_step) (simp only: lt noeog False if_True if_False)
      with Suc.prems
      have rec: "streaming_loop b maxTokens (i + 1) (kv @ [?tok]) (events @ ?ev) (n + 1)
                 = (kv', events', n')"
        by simp
      from Suc.hyps(2) have k: "k = nat (maxTokens - (i + 1))" by simp
      from Suc.hyps(1) [OF k rec]
      obtain new where ih: "prefix (kv @ [?tok]) kv'"
        "n + 1 \<le> n'" "n' - (n + 1) \<le> max 0 (maxTokens - (i + 1))"
        "int (length kv') \<le> int (length (kv @ [?tok])) + (n' - (n + 1))"
        "\<forall>t \<in> set (drop (length (kv @ [?tok])) kv'). \<not> vocab_is_eog b t"
        "events' = (events @ ?ev) @ new" "list_all is_token_event new"
        "int (length new) \<le> n' - (n + 1)"
        by blast
      from ih(1) obtain zs where kv': "kv' = kv @ ?tok # zs" by (auto simp add: prefix_def)
      have p1: "prefix kv kv'" using ih(1) by (rule append_prefixD)
      have d: "drop (length kv) kv' = ?tok # zs" using kv' by simp
      have d': "drop (length (kv @ [?tok])) kv' = zs" using kv' by simp
      have noe: "\<forall>t \<in> set (drop (length kv) kv'). \<not> vocab_is_eog b t"
        using ih(5) noeog unfolding d d' by simp
      have "events' = events @ (?ev @ new)" using ih(6) by simp
      moreover have "list_all is_token_event (?ev @ new)" using ev(1) ih(7) by simp
      moreover have "int (length (?ev @ new)) \<le> n' - n" using ev(2) ih(8) by simp
      ultimately have "\<exists>new. events' = events @ new \<and> list_all is_token_event new
              \<and> int (length new) \<le> n' - n" by blast
      then show ?thesis using p1 ih(2,3,4) noe lt by simp
    qed
  qed
qed


subsection \<open>The operations on the session\<close>

lemma generate_user_turn_record:
  assumes "generate_user_turn b s kv userStr maxTokens = (r, s')"
  shows "prefix_cache_record s' = prefix_cache_record s"
    and "g_initialized s' = g_initialized s" and "g_model s' = g_model s"
  using assms
  by (auto simp add: generate_user_turn_def prefix_cache_record_def
      split: option.splits prod.splits bool.splits)


lemma cache_miss_ingest_Inr:
  assumes "cache_miss_ingest b s sysStr kv = Inr (s1, kv1)"
  shows "\<exists>sys_tokens. tokenize_prompt b (format_system_prompt sysStr) True True = Some sys_tokens
           \<and> decode_chunks b sys_tokens 0 [] = (True, sys_tokens)
           \<and> kv1 = sys_tokens
           \<and> s1 = s\<lparr>g_context := Some sys_tokens, g_cached_system_tokens := sys_tokens,
                     g_cached_system_length := int (length sys_tokens),
                     g_cached_system_prompt := sysStr\<rparr>"
proof (cases "tokenize_prompt b (format_system_prompt sysStr) True True")
  case None
  with assms show ?thesis by (simp add: cache_miss_ingest_def)
next
  case (Some sys_tokens)
  obtain ok kv' where dc: "decode_chunks b sys_tokens 0 [] = (ok, kv')" by force
  with assms Some have ok: "ok" and kv1: "kv1 = kv'"
    and s1: "s1 = s\<lparr>g_context := Some kv', g_cached_system_tokens := sys_tokens,
                     g_cached_system_length := int (length sys_tokens),
                     g_cached_system_prompt := sysStr\<rparr>"
    by (auto simp add: cache_miss_ingest_def llama_memory_clear_def split: bool.splits)
  from dc ok have "kv' = [] @ sys_tokens" by (intro decode_chunks_ok) simp
  with dc ok kv1 s1 Some show ?thesis by simp
qed

lemma cache_miss_ingest_Inl:
  assumes "cache_miss_ingest b s sysStr kv = Inl (msg, s1)"
  shows "prefix_cache_record s1 = prefix_cache_record s"
    and "\<exists>kv1. s1 = s\<lparr>g_context := Some kv1\<rparr>"
  using assms
  by (auto simp add: cache_miss_ingest_def prefix_cache_record_def
      split: option.splits prod.splits bool.splits)

lemma cache_hit_trim_eq:
  "cache_hit_trim s kv = take (nat (g_cached_system_length s)) kv"
  by (simp add: cache_hit_trim_def llama_memory_seq_pos_max_def llama_memory_seq_rm_def)

text \<open>
  When the invariant holds, a hit leaves exactly the cached prefix resident. (It is
  the invariant that the operations do not all maintain; see the theorems on
  reloading at the end.)
\<close>

lemma cache_hit_trim_under_invariant:
  assumes "prefix_invariant s" "cache_hit s sysStr" "g_context s = Some kv"
  shows "cache_hit_trim s kv = g_cached_system_tokens s"
    and "int (length (cache_hit_trim s kv)) = g_cached_system_length s"
  using assms
  by (simp_all add: cache_hit_trim_eq prefix_invariant_def cache_hit_def)


section \<open>The text codec\<close>

text \<open>
  C9. The UTF-8 sanitisation pass is a function of its input alone. On a complete,
  well-formed UTF-8 byte sequence (a concatenation of code points) it returns the
  sequence unchanged. When the sequence is followed by a multi-byte code point of
  which the last \<open>k\<close> bytes are missing (\<open>k\<close> from 1 to 3, at least the lead byte
  left), it returns everything before that partial code point and nothing else.
  Whatever the input, the output is a subsequence of it: bytes are only dropped,
  never replaced or reordered.
\<close>

theorem text_codec_round_trip:
  "(well_formed_utf8 cps \<longrightarrow> sanitize_utf8 (concat cps) = concat cps)
   \<and> (well_formed_utf8 cps \<and> utf8_codepoint cp \<and> 1 \<le> k \<and> k < length cp \<longrightarrow>
        sanitize_utf8 (concat cps @ take (length cp - k) cp) = concat cps)
   \<and> subseq (sanitize_utf8 bs) bs"
proof (intro conjI impI)
  assume wf: "well_formed_utf8 cps"
  then have "utf8_scan (concat cps @ []) = concat cps @ utf8_scan []"
    unfolding well_formed_utf8_def by (rule utf8_scan_concat)
  then show "sanitize_utf8 (concat cps) = concat cps"
    by (simp add: sanitize_utf8_scan)
next
  assume a: "well_formed_utf8 cps \<and> utf8_codepoint cp \<and> 1 \<le> k \<and> k < length cp"
  then have wf: "list_all utf8_codepoint cps" by (simp add: well_formed_utf8_def)
  from a have "utf8_scan (take (length cp - k) cp) = []"
    by (intro utf8_scan_partial) simp_all
  with utf8_scan_concat [OF wf, of "take (length cp - k) cp"]
  show "sanitize_utf8 (concat cps @ take (length cp - k) cp) = concat cps"
    by (simp add: sanitize_utf8_scan)
next
  show "subseq (sanitize_utf8 bs) bs"
    by (simp add: sanitize_utf8_scan subseq_utf8_scan)
qed

text \<open>
  The text \<open>A\<close>, \<open>e\<close> with acute accent (two bytes), then the euro sign (three bytes)
  with its last byte missing; and an input with a stray byte \<open>0xFF\<close>.
\<close>

theorem text_codec_round_trip_witness:
  "well_formed_utf8 [[0x41], [0xC3, 0xA9]]
   \<and> sanitize_utf8 [0x41, 0xC3, 0xA9] = [0x41, 0xC3, 0xA9]
   \<and> utf8_codepoint [0xE2, 0x82, 0xAC]
   \<and> sanitize_utf8 [0x41, 0xC3, 0xA9, 0xE2, 0x82] = [0x41, 0xC3, 0xA9]
   \<and> subseq (sanitize_utf8 [0xFF, 0x41]) [0xFF, 0x41]"
proof -
  have wf: "well_formed_utf8 [[0x41], [0xC3, 0xA9]]"
    by (simp add: well_formed_utf8_def utf8_tail_def)
  have cp: "utf8_codepoint [0xE2, 0x82, 0xAC]"
    by (simp add: utf8_tail_def)
  note t = text_codec_round_trip [of "[[0x41], [0xC3, 0xA9]]" "[0xE2, 0x82, 0xAC]" 1
      "[0xFF, 0x41]"]
  from t wf have r1: "sanitize_utf8 [0x41, 0xC3, 0xA9] = [0x41, 0xC3, 0xA9]" by simp
  from t wf cp have r2: "sanitize_utf8 [0x41, 0xC3, 0xA9, 0xE2, 0x82] = [0x41, 0xC3, 0xA9]"
    by simp
  from t have r3: "subseq (sanitize_utf8 [0xFF, 0x41]) [0xFF, 0x41]" by blast
  from wf r1 cp r2 r3 show ?thesis by blast
qed


section \<open>The prefix cache\<close>

text \<open>
  C2. In \<^verbatim>\<open>nativeGenerateWithCache\<close> the decision is a hit exactly when the incoming
  system prompt equals the stored text, character for character, and the stored
  token count is positive; a loaded session takes the hit branch (trim, then the user
  turn) on that condition and the miss branch otherwise. After any call that returned
  a response for system prompt \<open>p\<close>, the record holds \<open>p\<close> with a positive count, so
  \<open>p\<close> itself is a hit and every other text is a miss: after \<open>You are helpful\<close>, the
  same text with one trailing space is a miss.
\<close>

theorem prefix_cache_decision:
  "(cache_hit s sysStr
      = (sysStr = g_cached_system_prompt s \<and> 0 < g_cached_system_length s))
   \<and> (g_initialized s \<and> g_model s \<and> g_context s = Some kv \<longrightarrow>
        nativeGenerateWithCache b s (Some sysStr) (Some userStr) maxTokens
          = (if sysStr = g_cached_system_prompt s \<and> 0 < g_cached_system_length s
             then generate_user_turn b s (cache_hit_trim s kv) userStr maxTokens
             else (case cache_miss_ingest b s sysStr kv of
                     Inl (msg, s1) \<Rightarrow> (ErrorReply msg, s1)
                   | Inr (s1, kv1) \<Rightarrow> generate_user_turn b s1 kv1 userStr maxTokens)))
   \<and> (nativeGenerateWithCache b s (Some sysStr) (Some userStr) maxTokens = (TextReply out, s')
        \<longrightarrow> cache_hit s' sysStr \<and> (\<forall>other. other \<noteq> sysStr \<longrightarrow> \<not> cache_hit s' other))
   \<and> (nativeGenerateWithCache b s (Some ''You are helpful'') (Some userStr) maxTokens
          = (TextReply out, s')
        \<longrightarrow> \<not> cache_hit s' ''You are helpful '')"
proof -
  have decision: "cache_hit s sysStr
      = (sysStr = g_cached_system_prompt s \<and> 0 < g_cached_system_length s)"
    by (simp add: cache_hit_def)
  have branch: "g_initialized s \<and> g_model s \<and> g_context s = Some kv \<longrightarrow>
        nativeGenerateWithCache b s (Some sysStr) (Some userStr) maxTokens
          = (if sysStr = g_cached_system_prompt s \<and> 0 < g_cached_system_length s
             then generate_user_turn b s (cache_hit_trim s kv) userStr maxTokens
             else (case cache_miss_ingest b s sysStr kv of
                     Inl (msg, s1) \<Rightarrow> (ErrorReply msg, s1)
                   | Inr (s1, kv1) \<Rightarrow> generate_user_turn b s1 kv1 userStr maxTokens))"
    by (simp add: nativeGenerateWithCache_def cache_hit_def)
  have after: "cache_hit t' p \<and> (\<forall>other. other \<noteq> p \<longrightarrow> \<not> cache_hit t' other)"
    if call: "nativeGenerateWithCache b s (Some p) (Some userStr) maxTokens = (TextReply out, t')"
    for p t'
  proof -
    from call obtain kv0 where loaded: "g_context s = Some kv0" "g_initialized s" "g_model s"
      by (auto simp add: nativeGenerateWithCache_def split: option.splits if_splits)
    have rec: "g_cached_system_prompt t' = p \<and> 0 < g_cached_system_length t'"
    proof (cases "cache_hit s p")
      case True
      with call loaded
      have "generate_user_turn b s (cache_hit_trim s kv0) userStr maxTokens = (TextReply out, t')"
        by (simp add: nativeGenerateWithCache_def)
      from generate_user_turn_record(1) [OF this] True show ?thesis
        by (simp add: prefix_cache_record_def cache_hit_def)
    next
      case False
      show ?thesis
      proof (cases "cache_miss_ingest b s p kv0")
        case (Inl e)
        with call loaded False show ?thesis
          by (cases e) (simp add: nativeGenerateWithCache_def)
      next
        case (Inr v)
        obtain s1 kv1 where v: "v = (s1, kv1)" by force
        with call loaded False Inr
        have turn: "generate_user_turn b s1 kv1 userStr maxTokens = (TextReply out, t')"
          by (simp add: nativeGenerateWithCache_def)
        from cache_miss_ingest_Inr [OF Inr [unfolded v]]
        obtain sys_tokens where
          tok: "tokenize_prompt b (format_system_prompt p) True True = Some sys_tokens"
          and s1: "g_cached_system_prompt s1 = p"
            "g_cached_system_length s1 = int (length sys_tokens)"
          by auto
        from tokenize_prompt_Some_nonempty [OF tok] s1(2)
        have "0 < g_cached_system_length s1" by simp
        with generate_user_turn_record(1) [OF turn] s1(1) show ?thesis
          by (simp add: prefix_cache_record_def)
      qed
    qed
    then show ?thesis by (auto simp add: cache_hit_def)
  qed
  have general: "nativeGenerateWithCache b s (Some sysStr) (Some userStr) maxTokens
          = (TextReply out, s')
        \<longrightarrow> cache_hit s' sysStr \<and> (\<forall>other. other \<noteq> sysStr \<longrightarrow> \<not> cache_hit s' other)"
    using after [of sysStr s'] by blast
  have space: "nativeGenerateWithCache b s (Some ''You are helpful'') (Some userStr) maxTokens
          = (TextReply out, s')
        \<longrightarrow> \<not> cache_hit s' ''You are helpful ''"
    using after [of "''You are helpful''" s'] by auto
  from decision branch general space show ?thesis by blast
qed

text \<open>
  On the concrete backend: a first turn with \<open>You are helpful\<close> on a loaded session
  returns a response, after which the same text is a hit and the text with a trailing
  space is a miss.
\<close>

theorem prefix_cache_decision_witness:
  "fst (nativeGenerateWithCache demo_backend loaded_session
          (Some ''You are helpful'') (Some ''hi'') 0) = TextReply []
   \<and> cache_hit (snd (nativeGenerateWithCache demo_backend loaded_session
          (Some ''You are helpful'') (Some ''hi'') 0)) ''You are helpful''
   \<and> \<not> cache_hit (snd (nativeGenerateWithCache demo_backend loaded_session
          (Some ''You are helpful'') (Some ''hi'') 0)) ''You are helpful ''"
proof -
  let ?call = "nativeGenerateWithCache demo_backend loaded_session
          (Some ''You are helpful'') (Some ''hi'') 0"
  have r: "fst ?call = TextReply []" by code_simp
  then have call: "?call = (TextReply [], snd ?call)" by (simp add: prod_eq_iff)
  from prefix_cache_decision [where s = loaded_session and b = demo_backend
      and userStr = "''hi''" and maxTokens = 0 and out = "[]" and s' = "snd ?call"] call
  have "cache_hit (snd ?call) ''You are helpful''"
    and "\<not> cache_hit (snd ?call) ''You are helpful ''"
    by blast+
  with r show ?thesis by blast
qed






section \<open>The sampling loop\<close>

text \<open>
  C6. In the blocking loop, when decoding the token just sampled fails, the loop ends
  at once: it returns the response so far (with the fragment of that token, appended
  before the decode), leaves the decode state as it was and samples no further token.
  Whatever ended the loop, the call returns the loop's response, sanitised, as a text
  reply and not as one of the error strings. This is so for \<^verbatim>\<open>nativeGenerate\<close>
  once the prompt is ingested, for the user turn, and for
  \<^verbatim>\<open>nativeGenerateWithCache\<close> both on a hit (the loop starts from the trimmed
  decode state followed by the user message) and on a miss whose prefix was ingested
  (the loop starts from the new prefix followed by the user message).
\<close>

theorem blocking_decode_failure_partial_result:
  "(i < maxTokens \<and> \<not> vocab_is_eog b (sampler_sample b (nat i) kv)
      \<and> decode_fails b kv [sampler_sample b (nat i) kv] \<longrightarrow>
      sampling_loop b maxTokens i kv response n
        = (kv,
           response @ (if length (token_piece b (sampler_sample b (nat i) kv)) \<le> 256
                       then token_piece b (sampler_sample b (nat i) kv) else []),
           n + 1))
   \<and> (g_initialized s \<and> g_model s \<and> g_context s = Some kv0
        \<and> tokenize_prompt b promptStr True True = Some tokens
        \<and> decode_chunks b tokens 0 kv0 = (True, kv1) \<longrightarrow>
      fst (nativeGenerate b s (Some promptStr) maxTokens)
        = TextReply (c_str (sanitize_utf8 (fst (snd (sampling_loop b maxTokens 0 kv1 [] 0))))))
   \<and> (tokenize_prompt b (format_user_prompt userStr) False False = Some user_tokens
        \<and> decode_chunks b user_tokens 0 kv0 = (True, kv1) \<longrightarrow>
      fst (generate_user_turn b s kv0 userStr maxTokens)
        = TextReply (c_str (sanitize_utf8 (fst (snd (sampling_loop b maxTokens 0 kv1 [] 0))))))
   \<and> (g_initialized s \<and> g_model s \<and> g_context s = Some kv0 \<and> cache_hit s sysStr
        \<and> tokenize_prompt b (format_user_prompt userStr) False False = Some user_tokens
        \<and> fst (decode_chunks b user_tokens 0 (cache_hit_trim s kv0)) \<longrightarrow>
      fst (nativeGenerateWithCache b s (Some sysStr) (Some userStr) maxTokens)
        = TextReply (c_str (sanitize_utf8 (fst (snd
            (sampling_loop b maxTokens 0 (cache_hit_trim s kv0 @ user_tokens) [] 0))))))
   \<and> (g_initialized s \<and> g_model s \<and> g_context s = Some kv0 \<and> \<not> cache_hit s sysStr
        \<and> tokenize_prompt b (format_system_prompt sysStr) True True = Some sys_tokens
        \<and> fst (decode_chunks b sys_tokens 0 [])
        \<and> tokenize_prompt b (format_user_prompt userStr) False False = Some user_tokens
        \<and> fst (decode_chunks b user_tokens 0 sys_tokens) \<longrightarrow>
      fst (nativeGenerateWithCache b s (Some sysStr) (Some userStr) maxTokens)
        = TextReply (c_str (sanitize_utf8 (fst (snd
            (sampling_loop b maxTokens 0 (sys_tokens @ user_tokens) [] 0))))))"
proof -
  have turn: "fst (generate_user_turn b st kvp userStr maxTokens)
        = TextReply (c_str (sanitize_utf8 (fst (snd
            (sampling_loop b maxTokens 0 (kvp @ user_tokens) [] 0)))))"
    if tok: "tokenize_prompt b (format_user_prompt userStr) False False = Some user_tokens"
      and ok: "fst (decode_chunks b user_tokens 0 kvp)" for st kvp
  proof -
    obtain kvq where dc: "decode_chunks b user_tokens 0 kvp = (True, kvq)"
      using ok by (cases "decode_chunks b user_tokens 0 kvp") simp
    from decode_chunks_ok [OF dc] have "kvq = kvp @ user_tokens" .
    with tok dc show ?thesis
      by (auto simp add: generate_user_turn_def split: prod.splits)
  qed
  have step: "sampling_loop b maxTokens i kv response n
        = (kv,
           response @ (if length (token_piece b (sampler_sample b (nat i) kv)) \<le> 256
                       then token_piece b (sampler_sample b (nat i) kv) else []),
           n + 1)"
    if "i < maxTokens \<and> \<not> vocab_is_eog b (sampler_sample b (nat i) kv)
      \<and> decode_fails b kv [sampler_sample b (nat i) kv]"
    using that by (subst sampling_loop_step) simp
  have gen: "fst (nativeGenerate b s (Some promptStr) maxTokens)
        = TextReply (c_str (sanitize_utf8 (fst (snd (sampling_loop b maxTokens 0 kv1 [] 0)))))"
    if "g_initialized s \<and> g_model s \<and> g_context s = Some kv0
        \<and> tokenize_prompt b promptStr True True = Some tokens
        \<and> decode_chunks b tokens 0 kv0 = (True, kv1)"
    using that by (auto simp add: nativeGenerate_def split: prod.splits)
  have user: "fst (generate_user_turn b s kv0 userStr maxTokens)
        = TextReply (c_str (sanitize_utf8 (fst (snd (sampling_loop b maxTokens 0 kv1 [] 0)))))"
    if "tokenize_prompt b (format_user_prompt userStr) False False = Some user_tokens
        \<and> decode_chunks b user_tokens 0 kv0 = (True, kv1)"
    using that by (auto simp add: generate_user_turn_def split: prod.splits)
  have hit: "fst (nativeGenerateWithCache b s (Some sysStr) (Some userStr) maxTokens)
        = TextReply (c_str (sanitize_utf8 (fst (snd
            (sampling_loop b maxTokens 0 (cache_hit_trim s kv0 @ user_tokens) [] 0)))))"
    if a: "g_initialized s \<and> g_model s \<and> g_context s = Some kv0 \<and> cache_hit s sysStr
        \<and> tokenize_prompt b (format_user_prompt userStr) False False = Some user_tokens
        \<and> fst (decode_chunks b user_tokens 0 (cache_hit_trim s kv0))"
  proof -
    from a have "nativeGenerateWithCache b s (Some sysStr) (Some userStr) maxTokens
          = generate_user_turn b s (cache_hit_trim s kv0) userStr maxTokens"
      by (auto simp add: nativeGenerateWithCache_def)
    with turn [where st = s and kvp = "cache_hit_trim s kv0"] a show ?thesis by simp
  qed
  have miss: "fst (nativeGenerateWithCache b s (Some sysStr) (Some userStr) maxTokens)
        = TextReply (c_str (sanitize_utf8 (fst (snd
            (sampling_loop b maxTokens 0 (sys_tokens @ user_tokens) [] 0)))))"
    if a: "g_initialized s \<and> g_model s \<and> g_context s = Some kv0 \<and> \<not> cache_hit s sysStr
        \<and> tokenize_prompt b (format_system_prompt sysStr) True True = Some sys_tokens
        \<and> fst (decode_chunks b sys_tokens 0 [])
        \<and> tokenize_prompt b (format_user_prompt userStr) False False = Some user_tokens
        \<and> fst (decode_chunks b user_tokens 0 sys_tokens)"
  proof -
    from a have call: "nativeGenerateWithCache b s (Some sysStr) (Some userStr) maxTokens
          = (case cache_miss_ingest b s sysStr kv0 of
               Inl (msg, s1) \<Rightarrow> (ErrorReply msg, s1)
             | Inr (s1, kvp) \<Rightarrow> generate_user_turn b s1 kvp userStr maxTokens)"
      by (auto simp add: nativeGenerateWithCache_def)
    from a obtain kvs where dc: "decode_chunks b sys_tokens 0 [] = (True, kvs)"
      by (cases "decode_chunks b sys_tokens 0 []") simp
    from decode_chunks_ok [OF dc] have kvs: "kvs = sys_tokens" by simp
    from a dc kvs
    have "cache_miss_ingest b s sysStr kv0
          = Inr (s\<lparr>g_context := Some sys_tokens, g_cached_system_tokens := sys_tokens,
                   g_cached_system_length := int (length sys_tokens),
                   g_cached_system_prompt := sysStr\<rparr>, sys_tokens)"
      by (simp add: cache_miss_ingest_def llama_memory_clear_def)
    with call
    have "nativeGenerateWithCache b s (Some sysStr) (Some userStr) maxTokens
          = generate_user_turn b
              (s\<lparr>g_context := Some sys_tokens, g_cached_system_tokens := sys_tokens,
                 g_cached_system_length := int (length sys_tokens),
                 g_cached_system_prompt := sysStr\<rparr>) sys_tokens userStr maxTokens"
      by simp
    with turn [where kvp = sys_tokens] a show ?thesis by simp
  qed
  from step gen user hit miss show ?thesis by blast
qed

text \<open>
  On the backend whose single-token decodes fail: the prompt \<open>hi\<close> is ingested, the
  first token \<open>h\<close> is sampled and appended, its decode fails, and the call returns
  the text \<open>h\<close>. The same holds for \<^verbatim>\<open>nativeGenerateWithCache\<close>, on a miss (a fresh
  session) and on a hit (the session that has \<open>S\<close> cached): the reply is the text
  \<open>h\<close>, not an error string.
\<close>

theorem blocking_decode_failure_partial_result_witness:
  "decode_fails failing_backend [1, 104, 105] [sampler_sample failing_backend 0 [1, 104, 105]]
   \<and> sampling_loop failing_backend 5 0 [1, 104, 105] [] 0 = ([1, 104, 105], [0x68], 1)
   \<and> fst (nativeGenerate failing_backend loaded_session (Some ''hi'') 5) = TextReply [0x68]
   \<and> \<not> cache_hit loaded_session ''S''
   \<and> fst (nativeGenerateWithCache failing_backend loaded_session (Some ''S'') (Some ''u'') 5)
       = TextReply [0x68]
   \<and> cache_hit cached_session ''S''
   \<and> fst (nativeGenerateWithCache failing_backend cached_session (Some ''S'') (Some ''u'') 5)
       = TextReply [0x68]"
proof -
  let ?st = "vocab_tokenize failing_backend (format_system_prompt ''S'') True True"
  let ?ut = "vocab_tokenize failing_backend (format_user_prompt ''u'') False False"
  have pre: "(0::int) < 5" "\<not> vocab_is_eog failing_backend (sampler_sample failing_backend (nat 0) [1, 104, 105])"
    "decode_fails failing_backend [1, 104, 105] [sampler_sample failing_backend (nat 0) [1, 104, 105]]"
    by code_simp+
  have piece: "(if length (token_piece failing_backend
                    (sampler_sample failing_backend (nat 0) [1, 104, 105])) \<le> 256
                then token_piece failing_backend
                    (sampler_sample failing_backend (nat 0) [1, 104, 105]) else []) = [0x68]"
    by code_simp
  have loaded: "g_initialized loaded_session" "g_model loaded_session"
    "g_context loaded_session = Some []"
    by code_simp+
  have tok: "tokenize_prompt failing_backend ''hi'' True True = Some [1, 104, 105]"
    by code_simp
  have dc: "decode_chunks failing_backend [1, 104, 105] 0 [] = (True, [1, 104, 105])"
    by code_simp
  note t = blocking_decode_failure_partial_result [where i = 0 and maxTokens = 5
      and b = failing_backend and kv = "[1, 104, 105]" and response = "[]" and n = 0
      and s = loaded_session and ?kv0.0 = "[]" and promptStr = "''hi''"
      and tokens = "[1, 104, 105]" and ?kv1.0 = "[1, 104, 105]"
      and sysStr = "''S''" and sys_tokens = ?st and userStr = "''u''" and user_tokens = ?ut]
  from t pre piece
  have loop: "sampling_loop failing_backend 5 0 [1, 104, 105] [] 0 = ([1, 104, 105], [0x68], 1)"
    by simp
  from t loaded tok dc
  have "fst (nativeGenerate failing_backend loaded_session (Some ''hi'') 5)
        = TextReply (c_str (sanitize_utf8
            (fst (snd (sampling_loop failing_backend 5 0 [1, 104, 105] [] 0)))))"
    by blast
  also have "\<dots> = TextReply (c_str (sanitize_utf8 [0x68]))" by (simp add: loop)
  also have "\<dots> = TextReply [0x68]" by code_simp
  finally have gen: "fst (nativeGenerate failing_backend loaded_session (Some ''hi'') 5)
        = TextReply [0x68]" .
  have no_hit: "\<not> cache_hit loaded_session ''S''" by code_simp
  have stok: "tokenize_prompt failing_backend (format_system_prompt ''S'') True True = Some ?st"
    by code_simp
  have utok: "tokenize_prompt failing_backend (format_user_prompt ''u'') False False = Some ?ut"
    by code_simp
  have sdc: "fst (decode_chunks failing_backend ?st 0 [])" by code_simp
  have udc: "fst (decode_chunks failing_backend ?ut 0 ?st)" by code_simp
  from t loaded no_hit stok sdc utok udc
  have "fst (nativeGenerateWithCache failing_backend loaded_session (Some ''S'') (Some ''u'') 5)
        = TextReply (c_str (sanitize_utf8 (fst (snd
            (sampling_loop failing_backend 5 0 (?st @ ?ut) [] 0)))))"
    by blast
  also have "\<dots> = TextReply [0x68]" by code_simp
  finally have on_miss:
    "fst (nativeGenerateWithCache failing_backend loaded_session (Some ''S'') (Some ''u'') 5)
        = TextReply [0x68]" .
  let ?old = "vocab_tokenize demo_backend (format_system_prompt ''S'') True True
               @ vocab_tokenize demo_backend (format_user_prompt ''u'') False False"
  have cached: "g_initialized cached_session" "g_model cached_session"
    "g_context cached_session = Some ?old"
    by code_simp+
  have is_hit: "cache_hit cached_session ''S''" by code_simp
  have hdc: "fst (decode_chunks failing_backend ?ut 0 (cache_hit_trim cached_session ?old))"
    by code_simp
  from blocking_decode_failure_partial_result [where b = failing_backend
      and s = cached_session and ?kv0.0 = ?old and sysStr = "''S''" and userStr = "''u''"
      and user_tokens = ?ut and maxTokens = 5] cached is_hit utok hdc
  have "fst (nativeGenerateWithCache failing_backend cached_session (Some ''S'') (Some ''u'') 5)
        = TextReply (c_str (sanitize_utf8 (fst (snd
            (sampling_loop failing_backend 5 0
               (cache_hit_trim cached_session ?old @ ?ut) [] 0)))))"
    by blast
  also have "\<dots> = TextReply [0x68]" by code_simp
  finally have on_hit:
    "fst (nativeGenerateWithCache failing_backend cached_session (Some ''S'') (Some ''u'') 5)
        = TextReply [0x68]" .
  from pre(3) loop gen no_hit on_miss is_hit on_hit show ?thesis by simp
qed

text \<open>
  C7. In each of the three generation shapes (the blocking loop serves
  \<^verbatim>\<open>nativeGenerate\<close> and \<^verbatim>\<open>nativeGenerateWithCache\<close>, the streaming loop
  \<^verbatim>\<open>nativeGenerateStreaming\<close>), when the sampled token is an end-of-generation
  token the loop stops with the response, the callback events and the decode state
  as they were: the token is neither emitted nor ingested. Over a whole run, no token
  the loop added to the decode state is an end-of-generation token.
\<close>

theorem end_of_sequence_stops_loop:
  "(vocab_is_eog b (sampler_sample b (nat i) kv) \<longrightarrow>
      sampling_loop b maxTokens i kv response n = (kv, response, n)
      \<and> streaming_loop b maxTokens i kv events n = (kv, events, n))
   \<and> (\<forall>t \<in> set (drop (length kv) (fst (sampling_loop b maxTokens i kv response n))).
         \<not> vocab_is_eog b t)
   \<and> (\<forall>t \<in> set (drop (length kv) (fst (streaming_loop b maxTokens i kv events n))).
         \<not> vocab_is_eog b t)"
proof (intro conjI impI)
  assume eog: "vocab_is_eog b (sampler_sample b (nat i) kv)"
  show "sampling_loop b maxTokens i kv response n = (kv, response, n)"
    using eog by (subst sampling_loop_step) simp
  show "streaming_loop b maxTokens i kv events n = (kv, events, n)"
    using eog by (subst streaming_loop_step) simp
next
  obtain kv' response' n' where "sampling_loop b maxTokens i kv response n = (kv', response', n')"
    by (metis prod_cases3)
  from sampling_loop_inv [OF this] this
  show "\<forall>t \<in> set (drop (length kv) (fst (sampling_loop b maxTokens i kv response n))).
         \<not> vocab_is_eog b t"
    by simp
next
  obtain kv' events' n' where "streaming_loop b maxTokens i kv events n = (kv', events', n')"
    by (metis prod_cases3)
  from streaming_loop_inv [OF this] this
  show "\<forall>t \<in> set (drop (length kv) (fst (streaming_loop b maxTokens i kv events n))).
         \<not> vocab_is_eog b t"
    by simp
qed

text \<open>
  The third draw of the concrete sampler is the end-of-generation token 2: both loops
  return their state untouched, and a whole run ingests \<open>104, 105\<close> only.
\<close>

theorem end_of_sequence_stops_loop_witness:
  "vocab_is_eog demo_backend (sampler_sample demo_backend 2 [1, 104, 105])
   \<and> sampling_loop demo_backend 5 2 [1, 104, 105] [0x68, 0x69] 2 = ([1, 104, 105], [0x68, 0x69], 2)
   \<and> streaming_loop demo_backend 5 2 [1, 104, 105] [OnToken [0x68]] 2
       = ([1, 104, 105], [OnToken [0x68]], 2)
   \<and> fst (sampling_loop demo_backend 5 0 [1] [] 0) = [1, 104, 105]
   \<and> \<not> vocab_is_eog demo_backend 104 \<and> \<not> vocab_is_eog demo_backend 105"
proof -
  have eog: "vocab_is_eog demo_backend (sampler_sample demo_backend (nat 2) [1, 104, 105])"
    by code_simp
  from end_of_sequence_stops_loop [where b = demo_backend and i = 2
      and kv = "[1, 104, 105]" and maxTokens = 5 and response = "[0x68, 0x69]" and n = 2
      and events = "[OnToken [0x68]]"] eog
  have stop: "sampling_loop demo_backend 5 2 [1, 104, 105] [0x68, 0x69] 2
        = ([1, 104, 105], [0x68, 0x69], 2)"
    "streaming_loop demo_backend 5 2 [1, 104, 105] [OnToken [0x68]] 2
        = ([1, 104, 105], [OnToken [0x68]], 2)"
    by blast+
  have run: "fst (sampling_loop demo_backend 5 0 [1] [] 0) = [1, 104, 105]" by code_simp
  from end_of_sequence_stops_loop [where b = demo_backend and i = 0 and kv = "[1]"
      and maxTokens = 5 and response = "[]" and n = 0 and events = "[]"]
  have "\<forall>t \<in> set (drop (length [1::int]) (fst (sampling_loop demo_backend 5 0 [1] [] 0))).
         \<not> vocab_is_eog demo_backend t"
    by blast
  then have "\<not> vocab_is_eog demo_backend 104" "\<not> vocab_is_eog demo_backend 105"
    unfolding run by simp_all
  with eog stop run show ?thesis by simp
qed

text \<open>
  C8. Both loops are total functions (their termination is proved with the measure
  \<open>maxTokens - i\<close>), so they return for every budget. For a budget \<open>N \<ge> 0\<close> they
  count at most \<open>N\<close> generated tokens, add at most that many positions to the decode
  state, and the streaming loop delivers at most that many token events. For
  \<open>N = 0\<close> they return at once with nothing emitted: the blocking call then returns
  the empty text and the streaming call only completes.
\<close>

theorem sampling_loop_budget:
  "(0 \<le> maxTokens \<longrightarrow>
      (case sampling_loop b maxTokens 0 kv [] 0 of
         (kv', response, n) \<Rightarrow>
           0 \<le> n \<and> n \<le> maxTokens \<and> int (length kv') \<le> int (length kv) + n)
      \<and> (case streaming_loop b maxTokens 0 kv [] 0 of
           (kv', events, n) \<Rightarrow>
             0 \<le> n \<and> n \<le> maxTokens \<and> int (length kv') \<le> int (length kv) + n
             \<and> int (length events) \<le> n \<and> list_all is_token_event events))
   \<and> sampling_loop b 0 0 kv [] 0 = (kv, [], 0)
   \<and> streaming_loop b 0 0 kv [] 0 = (kv, [], 0)
   \<and> (g_initialized s \<and> g_model s \<and> g_context s = Some kv
        \<and> tokenize_prompt b promptStr True True = Some tokens
        \<and> fst (decode_chunks b tokens 0 kv) \<longrightarrow>
      fst (nativeGenerate b s (Some promptStr) 0) = TextReply []
      \<and> (has_onToken cb \<and> has_onComplete cb \<and> has_onError cb \<longrightarrow>
           fst (nativeGenerateStreaming b s cb (Some promptStr) 0) = [OnComplete]))"
proof -
  have z1: "sampling_loop b 0 0 kv0 [] 0 = (kv0, [], 0)" for kv0
    by (subst sampling_loop_step) simp
  have z2: "streaming_loop b 0 0 kv0 [] 0 = (kv0, [], 0)" for kv0
    by (subst streaming_loop_step) simp
  have bound: "(case sampling_loop b maxTokens 0 kv [] 0 of
         (kv', response, n) \<Rightarrow>
           0 \<le> n \<and> n \<le> maxTokens \<and> int (length kv') \<le> int (length kv) + n)
      \<and> (case streaming_loop b maxTokens 0 kv [] 0 of
           (kv', events, n) \<Rightarrow>
             0 \<le> n \<and> n \<le> maxTokens \<and> int (length kv') \<le> int (length kv) + n
             \<and> int (length events) \<le> n \<and> list_all is_token_event events)"
    if nonneg: "0 \<le> maxTokens"
  proof -
    obtain kv1 response n1 where l1: "sampling_loop b maxTokens 0 kv [] 0 = (kv1, response, n1)"
      by (metis prod_cases3)
    obtain kv2 events n2 where l2: "streaming_loop b maxTokens 0 kv [] 0 = (kv2, events, n2)"
      by (metis prod_cases3)
    from sampling_loop_inv [OF l1] nonneg
    have "0 \<le> n1 \<and> n1 \<le> maxTokens \<and> int (length kv1) \<le> int (length kv) + n1" by simp
    moreover from streaming_loop_inv [OF l2] nonneg
    have "0 \<le> n2 \<and> n2 \<le> maxTokens \<and> int (length kv2) \<le> int (length kv) + n2
          \<and> int (length events) \<le> n2 \<and> list_all is_token_event events"
      by auto
    ultimately show ?thesis by (simp add: l1 l2)
  qed
  have empty: "c_str (sanitize_utf8 []) = []"
    by (simp add: c_str_def sanitize_utf8_scan)
  have ops: "fst (nativeGenerate b s (Some promptStr) 0) = TextReply []
      \<and> (has_onToken cb \<and> has_onComplete cb \<and> has_onError cb \<longrightarrow>
           fst (nativeGenerateStreaming b s cb (Some promptStr) 0) = [OnComplete])"
    if a: "g_initialized s \<and> g_model s \<and> g_context s = Some kv
        \<and> tokenize_prompt b promptStr True True = Some tokens
        \<and> fst (decode_chunks b tokens 0 kv)"
  proof -
    obtain kv1 where dc: "decode_chunks b tokens 0 kv = (True, kv1)"
      using a by (cases "decode_chunks b tokens 0 kv") auto
    from a dc have "fst (nativeGenerate b s (Some promptStr) 0) = TextReply []"
      by (auto simp add: nativeGenerate_def z1 empty)
    moreover from a dc
    have "has_onToken cb \<and> has_onComplete cb \<and> has_onError cb \<longrightarrow>
           fst (nativeGenerateStreaming b s cb (Some promptStr) 0) = [OnComplete]"
      by (auto simp add: nativeGenerateStreaming_def z2)
    ultimately show ?thesis by blast
  qed
  from bound z1 z2 ops show ?thesis by blast
qed

text \<open>
  On the concrete backend with budget 1: one token is generated, one position added,
  one token event delivered; with budget 0 the calls return the empty text and a
  lone completion.
\<close>

theorem sampling_loop_budget_witness:
  "sampling_loop demo_backend 1 0 [1] [] 0 = ([1, 104], [0x68], 1)
   \<and> streaming_loop demo_backend 1 0 [1] [] 0 = ([1, 104], [OnToken [0x68]], 1)
   \<and> fst (nativeGenerate demo_backend loaded_session (Some ''hi'') 0) = TextReply []
   \<and> fst (nativeGenerateStreaming demo_backend loaded_session full_callback (Some ''hi'') 0)
       = [OnComplete]"
proof -
  have l1: "sampling_loop demo_backend 1 0 [1] [] 0 = ([1, 104], [0x68], 1)" by code_simp
  have l2: "streaming_loop demo_backend 1 0 [1] [] 0 = ([1, 104], [OnToken [0x68]], 1)"
    by code_simp
  have loaded: "g_initialized loaded_session" "g_model loaded_session"
    "g_context loaded_session = Some []"
    by code_simp+
  have tok: "tokenize_prompt demo_backend ''hi'' True True = Some [1, 104, 105]" by code_simp
  have dc: "fst (decode_chunks demo_backend [1, 104, 105] 0 [])" by code_simp
  have cb: "has_onToken full_callback" "has_onComplete full_callback" "has_onError full_callback"
    by code_simp+
  from sampling_loop_budget [where maxTokens = 0 and b = demo_backend and kv = "[]"
      and s = loaded_session and promptStr = "''hi''" and tokens = "[1, 104, 105]"
      and cb = full_callback] loaded tok dc cb
  have "fst (nativeGenerate demo_backend loaded_session (Some ''hi'') 0) = TextReply []"
    and "fst (nativeGenerateStreaming demo_backend loaded_session full_callback (Some ''hi'') 0)
       = [OnComplete]"
    by blast+
  with l1 l2 show ?thesis by simp
qed


section \<open>Streaming\<close>

text \<open>
  C5, as the code has it. For a callback that provides all three methods, every
  streaming call delivers zero or more token events followed by exactly one terminal
  event, \<^verbatim>\<open>onComplete\<close> or \<^verbatim>\<open>onError\<close>. Each failure before generation is
  reported by \<^verbatim>\<open>onError\<close> alone, with its own message: a session that is not
  loaded (\<open>Model not loaded\<close>, as soon as the callback has \<^verbatim>\<open>onError\<close>), a null
  prompt (\<open>Invalid prompt\<close>), a prompt that cannot be tokenized
  (\<open>Tokenization failed\<close>) and a prompt chunk that fails to decode
  (\<open>Prompt processing failed\<close>, the decode state holding the chunks ingested
  before it). Once the prompt is ingested the events are those of the generation loop
  followed by \<^verbatim>\<open>onComplete\<close>: a decode failure during generation ends the loop after
  the token events delivered so far, without an error event. When the session is
  loaded and the callback lacks one of the three methods, the call returns without
  calling the callback at all.
\<close>

theorem streaming_terminal_event:
  "(has_onToken cb \<and> has_onComplete cb \<and> has_onError cb \<longrightarrow>
      streaming_contract (fst (nativeGenerateStreaming b s cb prompt maxTokens)))
   \<and> (has_onToken cb \<and> has_onComplete cb \<and> has_onError cb
        \<and> g_initialized s \<and> g_model s \<and> g_context s = Some kv
        \<and> tokenize_prompt b promptStr True True = Some tokens \<longrightarrow>
        (if fst (decode_chunks b tokens 0 kv)
         then last (fst (nativeGenerateStreaming b s cb (Some promptStr) maxTokens)) = OnComplete
         else fst (nativeGenerateStreaming b s cb (Some promptStr) maxTokens)
                = [OnError ''Prompt processing failed'']))
   \<and> (i < maxTokens \<and> \<not> vocab_is_eog b (sampler_sample b (nat i) kv)
        \<and> decode_fails b kv [sampler_sample b (nat i) kv] \<longrightarrow>
        (\<exists>new. streaming_loop b maxTokens i kv events n = (kv, events @ new, n + 1)
           \<and> list_all is_token_event new))
   \<and> (g_initialized s \<and> g_model s \<and> g_context s = Some kv
        \<and> \<not> (has_onToken cb \<and> has_onComplete cb \<and> has_onError cb) \<longrightarrow>
        fst (nativeGenerateStreaming b s cb prompt maxTokens) = [])
   \<and> (has_onError cb \<and> (\<not> g_initialized s \<or> \<not> g_model s \<or> g_context s = None) \<longrightarrow>
        nativeGenerateStreaming b s cb prompt maxTokens = ([OnError ''Model not loaded''], s))
   \<and> (has_onToken cb \<and> has_onComplete cb \<and> has_onError cb
        \<and> g_initialized s \<and> g_model s \<and> g_context s = Some kv \<longrightarrow>
        nativeGenerateStreaming b s cb None maxTokens = ([OnError ''Invalid prompt''], s))
   \<and> (has_onToken cb \<and> has_onComplete cb \<and> has_onError cb
        \<and> g_initialized s \<and> g_model s \<and> g_context s = Some kv
        \<and> tokenize_prompt b promptStr True True = None \<longrightarrow>
        nativeGenerateStreaming b s cb (Some promptStr) maxTokens
          = ([OnError ''Tokenization failed''], s))
   \<and> (has_onToken cb \<and> has_onComplete cb \<and> has_onError cb
        \<and> g_initialized s \<and> g_model s \<and> g_context s = Some kv
        \<and> tokenize_prompt b promptStr True True = Some tokens \<longrightarrow>
        (if fst (decode_chunks b tokens 0 kv)
         then fst (nativeGenerateStreaming b s cb (Some promptStr) maxTokens)
                = fst (snd (streaming_loop b maxTokens 0 (kv @ tokens) [] 0)) @ [OnComplete]
         else nativeGenerateStreaming b s cb (Some promptStr) maxTokens
                = ([OnError ''Prompt processing failed''],
                   s\<lparr>g_context := Some (snd (decode_chunks b tokens 0 kv))\<rparr>)))"
proof -
  have after_loop: "streaming_contract (evs @ [OnComplete]) \<and> last (evs @ [OnComplete]) = OnComplete"
    if "streaming_loop b maxTokens 0 kv1 [] 0 = (kv2, evs, n2)" for kv1 kv2 evs n2
  proof -
    from streaming_loop_inv [OF that] have "list_all is_token_event evs" by auto
    then show ?thesis by (simp add: streaming_contract_def)
  qed
  have contract: "streaming_contract (fst (nativeGenerateStreaming b s cb prompt maxTokens))"
    if cb: "has_onToken cb \<and> has_onComplete cb \<and> has_onError cb"
  proof (cases "if \<not> g_initialized s \<or> \<not> g_model s then None else g_context s")
    case None
    with cb show ?thesis
      by (simp add: nativeGenerateStreaming_def call_onError_def streaming_contract_def)
  next
    case ctx: (Some kv0)
    show ?thesis
    proof (cases prompt)
      case None
      with cb ctx show ?thesis
        by (simp add: nativeGenerateStreaming_def streaming_contract_def)
    next
      case p: (Some promptStr0)
      show ?thesis
      proof (cases "tokenize_prompt b promptStr0 True True")
        case None
        with cb ctx p show ?thesis
          by (simp add: nativeGenerateStreaming_def streaming_contract_def)
      next
        case tok: (Some tokens0)
        obtain ok kv1 where dc: "decode_chunks b tokens0 0 kv0 = (ok, kv1)" by force
        show ?thesis
        proof (cases ok)
          case False
          with cb ctx p tok dc show ?thesis
            by (simp add: nativeGenerateStreaming_def streaming_contract_def)
        next
          case True
          obtain kv2 evs n2 where sl: "streaming_loop b maxTokens 0 kv1 [] 0 = (kv2, evs, n2)"
            by (metis prod_cases3)
          from cb ctx p tok dc True sl
          have "fst (nativeGenerateStreaming b s cb prompt maxTokens) = evs @ [OnComplete]"
            by (simp add: nativeGenerateStreaming_def)
          with after_loop [OF sl] show ?thesis by simp
        qed
      qed
    qed
  qed
  have terminal: "if fst (decode_chunks b tokens 0 kv)
         then last (fst (nativeGenerateStreaming b s cb (Some promptStr) maxTokens)) = OnComplete
         else fst (nativeGenerateStreaming b s cb (Some promptStr) maxTokens)
                = [OnError ''Prompt processing failed'']"
    if a: "has_onToken cb \<and> has_onComplete cb \<and> has_onError cb
        \<and> g_initialized s \<and> g_model s \<and> g_context s = Some kv
        \<and> tokenize_prompt b promptStr True True = Some tokens"
  proof -
    obtain ok kv1 where dc: "decode_chunks b tokens 0 kv = (ok, kv1)" by force
    show ?thesis
    proof (cases ok)
      case False
      with a dc show ?thesis by (auto simp add: nativeGenerateStreaming_def)
    next
      case True
      obtain kv2 evs n2 where sl: "streaming_loop b maxTokens 0 kv1 [] 0 = (kv2, evs, n2)"
        by (metis prod_cases3)
      from a dc True sl
      have "fst (nativeGenerateStreaming b s cb (Some promptStr) maxTokens) = evs @ [OnComplete]"
        by (auto simp add: nativeGenerateStreaming_def)
      with dc True show ?thesis by simp
    qed
  qed
  have loop_fail: "\<exists>new. streaming_loop b maxTokens i kv events n = (kv, events @ new, n + 1)
           \<and> list_all is_token_event new"
    if a: "i < maxTokens \<and> \<not> vocab_is_eog b (sampler_sample b (nat i) kv)
        \<and> decode_fails b kv [sampler_sample b (nat i) kv]"
  proof -
    let ?new = "if 0 < length (token_piece b (sampler_sample b (nat i) kv))
                    \<and> length (token_piece b (sampler_sample b (nat i) kv)) \<le> 256
                then [OnToken (c_str (sanitize_utf8
                          (token_piece b (sampler_sample b (nat i) kv))))]
                else []"
    have "streaming_loop b maxTokens i kv events n = (kv, events @ ?new, n + 1)"
      using a by (subst streaming_loop_step) simp
    moreover have "list_all is_token_event ?new" by simp
    ultimately show ?thesis by blast
  qed
  have silent: "fst (nativeGenerateStreaming b s cb prompt maxTokens) = []"
    if "g_initialized s \<and> g_model s \<and> g_context s = Some kv
        \<and> \<not> (has_onToken cb \<and> has_onComplete cb \<and> has_onError cb)"
    using that by (auto simp add: nativeGenerateStreaming_def)
  have not_loaded: "nativeGenerateStreaming b s cb prompt maxTokens
        = ([OnError ''Model not loaded''], s)"
    if "has_onError cb \<and> (\<not> g_initialized s \<or> \<not> g_model s \<or> g_context s = None)"
    using that by (auto simp add: nativeGenerateStreaming_def call_onError_def)
  have null_prompt: "nativeGenerateStreaming b s cb None maxTokens
        = ([OnError ''Invalid prompt''], s)"
    if "has_onToken cb \<and> has_onComplete cb \<and> has_onError cb
        \<and> g_initialized s \<and> g_model s \<and> g_context s = Some kv"
    using that by (auto simp add: nativeGenerateStreaming_def)
  have no_tokens: "nativeGenerateStreaming b s cb (Some promptStr) maxTokens
          = ([OnError ''Tokenization failed''], s)"
    if "has_onToken cb \<and> has_onComplete cb \<and> has_onError cb
        \<and> g_initialized s \<and> g_model s \<and> g_context s = Some kv
        \<and> tokenize_prompt b promptStr True True = None"
    using that by (auto simp add: nativeGenerateStreaming_def)
  have ingested: "if fst (decode_chunks b tokens 0 kv)
         then fst (nativeGenerateStreaming b s cb (Some promptStr) maxTokens)
                = fst (snd (streaming_loop b maxTokens 0 (kv @ tokens) [] 0)) @ [OnComplete]
         else nativeGenerateStreaming b s cb (Some promptStr) maxTokens
                = ([OnError ''Prompt processing failed''],
                   s\<lparr>g_context := Some (snd (decode_chunks b tokens 0 kv))\<rparr>)"
    if a: "has_onToken cb \<and> has_onComplete cb \<and> has_onError cb
        \<and> g_initialized s \<and> g_model s \<and> g_context s = Some kv
        \<and> tokenize_prompt b promptStr True True = Some tokens"
  proof -
    obtain ok kv1 where dc: "decode_chunks b tokens 0 kv = (ok, kv1)" by force
    show ?thesis
    proof (cases ok)
      case False
      with a dc show ?thesis by (auto simp add: nativeGenerateStreaming_def)
    next
      case True
      with dc decode_chunks_ok [of b tokens kv kv1] have kv1: "kv1 = kv @ tokens" by simp
      obtain kv2 evs n2 where sl: "streaming_loop b maxTokens 0 kv1 [] 0 = (kv2, evs, n2)"
        by (metis prod_cases3)
      from a dc True sl
      have "fst (nativeGenerateStreaming b s cb (Some promptStr) maxTokens) = evs @ [OnComplete]"
        by (auto simp add: nativeGenerateStreaming_def)
      with dc True sl kv1 show ?thesis by simp
    qed
  qed
  from contract terminal loop_fail silent not_loaded null_prompt no_tokens ingested
  show ?thesis by blast
qed

text \<open>
  On the concrete backend, with a full callback and the prompt \<open>hi\<close>: two token
  events, then completion. And the four failures before generation, each reported
  by one error event and nothing else: a session never loaded, a null prompt, a
  tokenizer that yields no token, and a context window of two positions for the three
  tokens of the prompt.
\<close>

theorem streaming_terminal_event_witness:
  "has_onToken full_callback \<and> has_onComplete full_callback \<and> has_onError full_callback
   \<and> fst (nativeGenerateStreaming demo_backend loaded_session full_callback (Some ''hi'') 5)
       = [OnToken [0x68], OnToken [0x69], OnComplete]
   \<and> streaming_contract [OnToken [0x68], OnToken [0x69], OnComplete]
   \<and> nativeGenerateStreaming demo_backend initial_session full_callback (Some ''hi'') 5
       = ([OnError ''Model not loaded''], initial_session)
   \<and> nativeGenerateStreaming demo_backend loaded_session full_callback None 5
       = ([OnError ''Invalid prompt''], loaded_session)
   \<and> nativeGenerateStreaming mute_backend loaded_session full_callback (Some ''hi'') 5
       = ([OnError ''Tokenization failed''], loaded_session)
   \<and> nativeGenerateStreaming (limited_backend 2) loaded_session full_callback (Some ''hi'') 5
       = ([OnError ''Prompt processing failed''], loaded_session\<lparr>g_context := Some []\<rparr>)"
proof -
  have cb: "has_onToken full_callback" "has_onComplete full_callback" "has_onError full_callback"
    by code_simp+
  have loaded: "g_initialized loaded_session" "g_model loaded_session"
    "g_context loaded_session = Some []"
    by code_simp+
  have tok: "tokenize_prompt demo_backend ''hi'' True True = Some [1, 104, 105]"
    by code_simp
  have dc: "fst (decode_chunks demo_backend [1, 104, 105] 0 [])" by code_simp
  have loop: "fst (snd (streaming_loop demo_backend 5 0 ([] @ [1, 104, 105]) [] 0))
        = [OnToken [0x68], OnToken [0x69]]"
    by code_simp
  note t = streaming_terminal_event [where cb = full_callback and b = demo_backend
      and s = loaded_session and prompt = "Some ''hi''" and maxTokens = 5 and kv = "[]"
      and promptStr = "''hi''" and tokens = "[1, 104, 105]"]
  from t cb
  have contract: "streaming_contract
          (fst (nativeGenerateStreaming demo_backend loaded_session full_callback (Some ''hi'') 5))"
    by blast
  from t cb loaded tok
  have "if fst (decode_chunks demo_backend [1, 104, 105] 0 [])
        then fst (nativeGenerateStreaming demo_backend loaded_session full_callback
                    (Some ''hi'') 5)
               = fst (snd (streaming_loop demo_backend 5 0 ([] @ [1, 104, 105]) [] 0))
                 @ [OnComplete]
        else nativeGenerateStreaming demo_backend loaded_session full_callback (Some ''hi'') 5
               = ([OnError ''Prompt processing failed''],
                  loaded_session\<lparr>g_context :=
                    Some (snd (decode_chunks demo_backend [1, 104, 105] 0 []))\<rparr>)"
    by blast
  then have ev: "fst (nativeGenerateStreaming demo_backend loaded_session full_callback
                    (Some ''hi'') 5)
       = [OnToken [0x68], OnToken [0x69], OnComplete]"
    unfolding if_P [OF dc] loop by simp
  have unloaded: "\<not> g_initialized initial_session" by code_simp
  from streaming_terminal_event [where cb = full_callback and b = demo_backend
      and s = initial_session and prompt = "Some ''hi''" and maxTokens = 5] cb unloaded
  have e1: "nativeGenerateStreaming demo_backend initial_session full_callback (Some ''hi'') 5
       = ([OnError ''Model not loaded''], initial_session)"
    by blast
  from t cb loaded
  have e2: "nativeGenerateStreaming demo_backend loaded_session full_callback None 5
       = ([OnError ''Invalid prompt''], loaded_session)"
    by blast
  have mute: "tokenize_prompt mute_backend ''hi'' True True = None" by code_simp
  from streaming_terminal_event [where cb = full_callback and b = mute_backend
      and s = loaded_session and maxTokens = 5 and kv = "[]" and promptStr = "''hi''"]
    cb loaded mute
  have e3: "nativeGenerateStreaming mute_backend loaded_session full_callback (Some ''hi'') 5
       = ([OnError ''Tokenization failed''], loaded_session)"
    by blast
  have ltok: "tokenize_prompt (limited_backend 2) ''hi'' True True = Some [1, 104, 105]"
    by code_simp
  have ldc: "decode_chunks (limited_backend 2) [1, 104, 105] 0 [] = (False, [])" by code_simp
  from streaming_terminal_event [where cb = full_callback and b = "limited_backend 2"
      and s = loaded_session and maxTokens = 5 and kv = "[]" and promptStr = "''hi''"
      and tokens = "[1, 104, 105]"] cb loaded ltok
  have "if fst (decode_chunks (limited_backend 2) [1, 104, 105] 0 [])
        then fst (nativeGenerateStreaming (limited_backend 2) loaded_session full_callback
                    (Some ''hi'') 5)
               = fst (snd (streaming_loop (limited_backend 2) 5 0 ([] @ [1, 104, 105]) [] 0))
                 @ [OnComplete]
        else nativeGenerateStreaming (limited_backend 2) loaded_session full_callback
                    (Some ''hi'') 5
               = ([OnError ''Prompt processing failed''],
                  loaded_session\<lparr>g_context :=
                    Some (snd (decode_chunks (limited_backend 2) [1, 104, 105] 0 []))\<rparr>)"
    by blast
  then have e4: "nativeGenerateStreaming (limited_backend 2) loaded_session full_callback
                    (Some ''hi'') 5
       = ([OnError ''Prompt processing failed''], loaded_session\<lparr>g_context := Some []\<rparr>)"
    unfolding ldc fst_conv snd_conv if_False .
  have sc: "streaming_contract [OnToken [0x68], OnToken [0x69], OnComplete]"
    using contract unfolding ev .
  from cb ev sc e1 e2 e3 e4 show ?thesis by simp
qed

text \<open>
  C5 as it is stated fails in two places. When decoding the first sampled token
  fails, the call delivers that token and then \<^verbatim>\<open>onComplete\<close>; no error event is
  made. And with a callback object that has no \<^verbatim>\<open>onToken\<close> method, a loaded
  session makes no call on it at all, so neither terminal event occurs.
\<close>

theorem streaming_terminal_event_counterexample:
  "decode_fails failing_backend [1, 104, 105] [sampler_sample failing_backend 0 [1, 104, 105]]
   \<and> nativeGenerateStreaming failing_backend loaded_session full_callback (Some ''hi'') 5
       = ([OnToken [0x68], OnComplete], loaded_session\<lparr>g_context := Some [1, 104, 105]\<rparr>)
   \<and> fst (nativeGenerateStreaming demo_backend loaded_session
            (full_callback\<lparr>has_onToken := False\<rparr>) (Some ''hi'') 5) = []"
  by code_simp


section \<open>Frame conditions and the invariant of the prefix cache\<close>

text \<open>
  C10. A call of \<^verbatim>\<open>nativeGenerate\<close> leaves the prefix cache record (text, tokens,
  count) as it was, on every path. It never clears or truncates the decode state: the
  state after the call is the state before it with tokens appended, and when the
  prompt is ingested these are the prompt's tokens followed by the generated ones.
\<close>

theorem generate_frame:
  "prefix_cache_record (snd (nativeGenerate b s prompt maxTokens)) = prefix_cache_record s
   \<and> (case g_context s of
         None \<Rightarrow> g_context (snd (nativeGenerate b s prompt maxTokens)) = None
       | Some kv \<Rightarrow>
           (\<exists>added. g_context (snd (nativeGenerate b s prompt maxTokens)) = Some (kv @ added)))
   \<and> (g_initialized s \<and> g_model s \<and> g_context s = Some kv0
        \<and> tokenize_prompt b promptStr True True = Some tokens
        \<and> fst (decode_chunks b tokens 0 kv0) \<longrightarrow>
        (\<exists>generated. g_context (snd (nativeGenerate b s (Some promptStr) maxTokens))
                        = Some (kv0 @ tokens @ generated)))"
proof -
  have rec: "prefix_cache_record (snd (nativeGenerate b s prompt maxTokens))
             = prefix_cache_record s"
    by (auto simp add: nativeGenerate_def prefix_cache_record_def
        split: option.splits prod.splits bool.splits)
  have ctx: "case g_context s of
         None \<Rightarrow> g_context (snd (nativeGenerate b s prompt maxTokens)) = None
       | Some kv \<Rightarrow>
           (\<exists>added. g_context (snd (nativeGenerate b s prompt maxTokens)) = Some (kv @ added))"
  proof (cases "g_context s")
    case None
    then show ?thesis by (simp add: nativeGenerate_def)
  next
    case (Some kv)
    have "\<exists>added. g_context (snd (nativeGenerate b s prompt maxTokens)) = Some (kv @ added)"
    proof (cases "\<not> g_initialized s \<or> \<not> g_model s")
      case True
      with Some have "g_context (snd (nativeGenerate b s prompt maxTokens)) = Some (kv @ [])"
        by (auto simp add: nativeGenerate_def)
      then show ?thesis by blast
    next
      case loaded: False
      show ?thesis
      proof (cases prompt)
        case None
        with Some loaded
        have "g_context (snd (nativeGenerate b s prompt maxTokens)) = Some (kv @ [])"
          by (auto simp add: nativeGenerate_def)
        then show ?thesis by blast
      next
        case p: (Some promptStr0)
        show ?thesis
        proof (cases "tokenize_prompt b promptStr0 True True")
          case None
          with Some loaded p
          have "g_context (snd (nativeGenerate b s prompt maxTokens)) = Some (kv @ [])"
            by (auto simp add: nativeGenerate_def)
          then show ?thesis by blast
        next
          case tok: (Some tokens0)
          obtain ok kv1 where dc: "decode_chunks b tokens0 0 kv = (ok, kv1)" by force
          from decode_chunks_prefix [OF dc] obtain m where kv1: "kv1 = kv @ take m tokens0"
            by blast
          show ?thesis
          proof (cases ok)
            case False
            with Some loaded p tok dc
            have "g_context (snd (nativeGenerate b s prompt maxTokens)) = Some kv1"
              by (auto simp add: nativeGenerate_def)
            with kv1 show ?thesis by blast
          next
            case True
            obtain kv2 response n2 where
              sl: "sampling_loop b maxTokens 0 kv1 [] 0 = (kv2, response, n2)"
              by (metis prod_cases3)
            from sampling_loop_inv [OF sl] have "prefix kv1 kv2" by blast
            then obtain zs where "kv2 = kv1 @ zs" by (auto simp add: prefix_def)
            with kv1 have "kv2 = kv @ (take m tokens0 @ zs)" by simp
            moreover from Some loaded p tok dc True sl
            have "g_context (snd (nativeGenerate b s prompt maxTokens)) = Some kv2"
              by (auto simp add: nativeGenerate_def)
            ultimately show ?thesis by blast
          qed
        qed
      qed
    qed
    with Some show ?thesis by simp
  qed
  have appended: "\<exists>generated. g_context (snd (nativeGenerate b s (Some promptStr) maxTokens))
                        = Some (kv0 @ tokens @ generated)"
    if a: "g_initialized s \<and> g_model s \<and> g_context s = Some kv0
        \<and> tokenize_prompt b promptStr True True = Some tokens
        \<and> fst (decode_chunks b tokens 0 kv0)"
  proof -
    obtain kv1 where dc: "decode_chunks b tokens 0 kv0 = (True, kv1)"
      using a by (cases "decode_chunks b tokens 0 kv0") auto
    from decode_chunks_ok [OF dc] have kv1: "kv1 = kv0 @ tokens" .
    obtain kv2 response n2 where
      sl: "sampling_loop b maxTokens 0 kv1 [] 0 = (kv2, response, n2)"
      by (metis prod_cases3)
    from sampling_loop_inv [OF sl] have "prefix kv1 kv2" by blast
    then obtain zs where "kv2 = kv1 @ zs" by (auto simp add: prefix_def)
    with kv1 have "kv2 = kv0 @ tokens @ zs" by simp
    moreover from a dc sl
    have "g_context (snd (nativeGenerate b s (Some promptStr) maxTokens)) = Some kv2"
      by (auto simp add: nativeGenerate_def)
    ultimately show ?thesis by blast
  qed
  from rec ctx appended show ?thesis by blast
qed

text \<open>
  On the session that has \<open>S\<close> cached (98 positions resident): a plain generation
  with prompt \<open>hi\<close> keeps the record and appends the three prompt tokens and the two
  generated ones.
\<close>

theorem generate_frame_witness:
  "prefix_cache_record (snd (nativeGenerate demo_backend cached_session (Some ''hi'') 5))
     = prefix_cache_record cached_session
   \<and> g_cached_system_length cached_session = 47
   \<and> (case g_context cached_session of
         None \<Rightarrow> False
       | Some kv \<Rightarrow>
           length kv = 98
           \<and> g_context (snd (nativeGenerate demo_backend cached_session (Some ''hi'') 5))
               = Some (kv @ [1, 104, 105] @ [104, 105]))"
proof -
  have rec: "prefix_cache_record (snd (nativeGenerate demo_backend cached_session (Some ''hi'') 5))
     = prefix_cache_record cached_session"
    using generate_frame [where b = demo_backend and s = cached_session
        and prompt = "Some ''hi''" and maxTokens = 5]
    by blast
  have n: "g_cached_system_length cached_session = 47" by code_simp
  have ctx: "case g_context cached_session of
         None \<Rightarrow> False
       | Some kv \<Rightarrow>
           length kv = 98
           \<and> g_context (snd (nativeGenerate demo_backend cached_session (Some ''hi'') 5))
               = Some (kv @ [1, 104, 105] @ [104, 105])"
    by code_simp
  from rec n ctx show ?thesis by blast
qed

text \<open>
  C1 at the input where the code breaks it. After one cached turn the invariant
  holds. Loading the model again (\<^verbatim>\<open>nativeLoadModel\<close> on an initialised session)
  frees the context and creates an empty one, but leaves the record in place: the
  record claims 47 cached tokens while the decode state holds none.
  \<^verbatim>\<open>nativeFreeModel\<close>, which releases the same resources, does clear the record.
\<close>

theorem reload_breaks_prefix_invariant:
  "prefix_invariant cached_session
   \<and> g_cached_system_length reloaded_session = 47
   \<and> g_cached_system_prompt reloaded_session = ''S''
   \<and> g_context reloaded_session = Some []
   \<and> \<not> prefix_invariant reloaded_session
   \<and> prefix_cache_record (nativeFreeModel cached_session) = ([], [], 0)
   \<and> prefix_invariant (nativeFreeModel cached_session)"
  by code_simp

text \<open>
  C4 at the same input. On the reloaded session the turn \<open>turn_after_reload\<close>, with
  the cached system prompt, is a hit with 47 cached tokens; nothing is resident, so after the trim no position
  is (not 47), and the user turn is ingested from position 0: the decode state after
  the call is the user message's tokens alone.
\<close>

theorem hit_after_reload_has_no_prefix:
  "cache_hit reloaded_session ''S''
   \<and> g_cached_system_length reloaded_session = 47
   \<and> g_context reloaded_session = Some []
   \<and> cache_hit_trim reloaded_session [] = []
   \<and> fst turn_after_reload = TextReply []
   \<and> g_context (snd turn_after_reload)
       = Some (vocab_tokenize demo_backend (format_user_prompt ''v'') False False)"
  by code_simp


end
